theory Spec2Isabelle
  imports Complex_Main "HOL-Library.AList"
begin

section \<open>Shared data model\<close>

text \<open>
  Python strings of the command syntax are modelled as HOL strings (code points below
  256). The strings inside a decoded JSON value may hold any code point, because a
  \<^verbatim>\<open>\uXXXX\<close> escape can denote one; they are lists of code points.
\<close>

type_synonym ustring = "nat list"

text \<open>
  A decoded JSON value, as \<^verbatim>\<open>json.loads\<close> builds it: \<^verbatim>\<open>None\<close>, \<^verbatim>\<open>bool\<close>,
  \<^verbatim>\<open>int\<close>, \<^verbatim>\<open>float\<close> (kept as the literal it was read from, among them
  \<^verbatim>\<open>NaN\<close>, \<^verbatim>\<open>Infinity\<close> and \<^verbatim>\<open>-Infinity\<close>), \<^verbatim>\<open>str\<close>, \<^verbatim>\<open>list\<close> and
  \<^verbatim>\<open>dict\<close> (in insertion order).
\<close>

datatype json =
    JNull
  | JBool bool
  | JInt int
  | JFloat string
  | JStr ustring
  | JArr "json list"
  | JObj "(ustring \<times> json) list"

text \<open>
  Exceptions are values. \<open>exc_class\<close> lists the classes the core raises or catches by
  name; \<open>OtherException\<close> is any further subclass of \<^verbatim>\<open>Exception\<close> and
  \<open>OtherBaseException\<close> any further class that derives from \<^verbatim>\<open>BaseException\<close>
  only. An exception carries its class, its text \<^verbatim>\<open>str(e)\<close> and its \<^verbatim>\<open>__cause__\<close>.
\<close>

datatype exc_class =
    ValueError
  | RuntimeError
  | JSONDecodeError
  | ValidationError
  | OverflowError
  | KeyboardInterrupt
  | SystemExit
  | CancelledError
  | OtherException string
  | OtherBaseException string

fun is_Exception :: "exc_class \<Rightarrow> bool" where
  "is_Exception KeyboardInterrupt = False"
| "is_Exception SystemExit = False"
| "is_Exception CancelledError = False"
| "is_Exception (OtherBaseException n) = False"
| "is_Exception c = True"

datatype pyexc = PyExc (exc_type: exc_class) (exc_str: string) (exc_cause: "pyexc option")

datatype log_level = DEBUG | INFO | WARNING | ERROR

type_synonym log_entry = "log_level \<times> string"

text \<open>
  \<^verbatim>\<open>class Command(BaseModel)\<close> of command_router.py. The timestamp is a Python float;
  the model takes the finite ones, as rational numbers of seconds.
\<close>

record command =
  command_type :: string
  target_system :: string
  payload :: "(ustring \<times> json) list"
  signature :: "string option"
  timestamp :: "rat option"

section \<open>CommandRouter (command_router.py)\<close>

text \<open>
  A handler class is instantiated without arguments and the instance handles one
  command. Both steps may raise and both may act on the world outside the router
  (\<open>'w\<close>: sessions, sockets, storage). The response \<open>'r\<close> is not inspected by the
  router.
\<close>

type_synonym ('w, 'r) handler = "command \<Rightarrow> 'w \<Rightarrow> (pyexc + 'r) \<times> 'w"

type_synonym ('w, 'r) handler_class = "'w \<Rightarrow> (pyexc + ('w, 'r) handler) \<times> 'w"

record ('w, 'r) router =
  handlers :: "string \<rightharpoonup> ('w, 'r) handler_class"
  initialized :: bool
  router_log :: "log_entry list"

definition logR :: "log_level \<Rightarrow> string \<Rightarrow> ('w, 'r) router \<Rightarrow> ('w, 'r) router" where
  "logR lvl msg r = r\<lparr>router_log := router_log r @ [(lvl, msg)]\<rparr>"

definition router_init :: "('w, 'r) router" where
  "router_init =
     \<lparr>handlers = Map.empty, initialized = False,
      router_log = [(INFO, ''Initializing CommandRouter'')]\<rparr>"

definition register_handler ::
  "string \<Rightarrow> ('w, 'r) handler_class \<Rightarrow> ('w, 'r) router \<Rightarrow> ('w, 'r) router" where
  "register_handler system_name handler r =
     (let r1 = (if system_name \<in> dom (handlers r)
                then logR WARNING (''Overwriting existing handler for '' @ system_name) r
                else r);
          r2 = r1\<lparr>handlers := (handlers r1)(system_name \<mapsto> handler)\<rparr>
      in logR INFO (''Registered handler for '' @ system_name) r2)"

definition initialize_handlers :: "('w, 'r) router \<Rightarrow> ('w, 'r) router" where
  "initialize_handlers r = logR INFO ''Command handlers initialized'' (r\<lparr>initialized := True\<rparr>)"

text \<open>
  The \<^verbatim>\<open>except Exception as e\<close> clause of \<^verbatim>\<open>route_command\<close>: an exception that is
  an instance of \<^verbatim>\<open>Exception\<close> is logged and replaced by a \<^verbatim>\<open>RuntimeError\<close>
  raised \<^verbatim>\<open>from e\<close>; any other exception is not caught by the clause.
\<close>

definition handler_failed ::
  "string \<Rightarrow> pyexc \<Rightarrow> ('w, 'r) router \<Rightarrow> 'w \<Rightarrow> (pyexc + 'r) \<times> ('w, 'r) router \<times> 'w" where
  "handler_failed target e r w =
     (if is_Exception (exc_type e)
      then (let error_msg = ''Error handling command for '' @ target @ '': '' @ exc_str e
            in (Inl (PyExc RuntimeError error_msg (Some e)), logR ERROR error_msg r, w))
      else (Inl e, r, w))"

text \<open>The \<^verbatim>\<open>try\<close> block of \<^verbatim>\<open>route_command\<close>: instantiate, handle, log, return.\<close>

definition dispatch ::
  "('w, 'r) handler_class \<Rightarrow> command \<Rightarrow> ('w, 'r) router \<Rightarrow> 'w
     \<Rightarrow> (pyexc + 'r) \<times> ('w, 'r) router \<times> 'w" where
  "dispatch handler_class cmd r w =
     (case handler_class w of
        (Inl e, w1) \<Rightarrow> handler_failed (target_system cmd) e r w1
      | (Inr handler, w1) \<Rightarrow>
          (case handler cmd w1 of
             (Inl e, w2) \<Rightarrow> handler_failed (target_system cmd) e r w2
           | (Inr response, w2) \<Rightarrow>
               (Inr response,
                logR INFO (''Successfully routed command to '' @ target_system cmd) r, w2)))"

definition route_command ::
  "command \<Rightarrow> ('w, 'r) router \<Rightarrow> 'w \<Rightarrow> (pyexc + 'r) \<times> ('w, 'r) router \<times> 'w" where
  "route_command cmd r w =
     (let r1 = (if \<not> initialized r then initialize_handlers r else r)
      in case handlers r1 (target_system cmd) of
           None \<Rightarrow>
             (let error_msg = ''No handler found for system: '' @ target_system cmd
              in (Inl (PyExc ValueError error_msg None), logR ERROR error_msg r1, w))
         | Some handler_class \<Rightarrow> dispatch handler_class cmd r1 w)"

text \<open>Example handlers, used to evaluate the router on concrete inputs.\<close>

definition ok_handler :: "nat \<Rightarrow> (nat list, nat) handler_class" where
  "ok_handler n = (\<lambda>w. (Inr (\<lambda>cmd w1. (Inr n, w1 @ [n])), w))"

definition failing_handler :: "pyexc \<Rightarrow> (nat list, nat) handler_class" where
  "failing_handler e = (\<lambda>w. (Inr (\<lambda>cmd w1. (Inl e, w1 @ [0])), w))"

definition ping :: command where
  "ping = \<lparr>command_type = ''ping'', target_system = ''x'', payload = [],
           signature = None, timestamp = None\<rparr>"

section \<open>SignatureVerifier (signature_verifier.py)\<close>

type_synonym bytes = "char list"

text \<open>
  \<^verbatim>\<open>str.encode('utf-8')\<close> on code points below 256: one byte below 128, two bytes
  from there on. No such string fails to encode.
\<close>

definition utf8_char :: "char \<Rightarrow> bytes" where
  "utf8_char c =
     (let n = (of_char c :: nat)
      in if n < 128 then [c] else [char_of (192 + n div 64), char_of (128 + n mod 64)])"

definition utf8_encode :: "string \<Rightarrow> bytes" where
  "utf8_encode s = concat (map utf8_char s)"

text \<open>\<^verbatim>\<open>base64.b64encode(...).decode('utf-8')\<close>: the standard alphabet, padded with \<^verbatim>\<open>=\<close>.\<close>

definition b64_alphabet :: string where
  "b64_alphabet = ''ABCDEFGHIJKLMNOPQRSTUVWXYZabcdefghijklmnopqrstuvwxyz0123456789+/''"

definition b64_digit :: "nat \<Rightarrow> char" where
  "b64_digit n = b64_alphabet ! (n mod 64)"

fun b64encode :: "bytes \<Rightarrow> string" where
  "b64encode (a # b # c # rest) =
     (let n = (of_char a :: nat) * 65536 + of_char b * 256 + of_char c
      in [b64_digit (n div 262144), b64_digit (n div 4096), b64_digit (n div 64), b64_digit n]
         @ b64encode rest)"
| "b64encode [a, b] =
     (let n = (of_char a :: nat) * 65536 + of_char b * 256
      in [b64_digit (n div 262144), b64_digit (n div 4096), b64_digit (n div 64), CHR ''=''])"
| "b64encode [a] =
     (let n = (of_char a :: nat) * 65536
      in [b64_digit (n div 262144), b64_digit (n div 4096), CHR ''='', CHR ''=''])"
| "b64encode [] = []"

text \<open>
  Three functions of the libraries the code imports are left open, and every statement
  below holds whatever they compute: the digest
  \<^verbatim>\<open>hmac.new(key, msg, hashlib.sha256).digest()\<close>, the text of a float in an f-string,
  and what pydantic makes of a list or a string given for a field of type
  \<^verbatim>\<open>Dict[str, Any]\<close> (\<open>None\<close> when it refuses the value, the dictionary when it coerces
  it: pydantic 2 refuses them all, pydantic 1 tries \<^verbatim>\<open>dict(value)\<close>). The repository
  fixes no version of pydantic.
\<close>

record pylib =
  hmac_sha256 :: "bytes \<Rightarrow> bytes \<Rightarrow> bytes"
  float_str :: "rat \<Rightarrow> string"
  dict_coercion :: "json \<Rightarrow> (ustring \<times> json) list option"

text \<open>
  A naive \<^verbatim>\<open>datetime\<close> is its number of microseconds since the epoch, and a
  \<^verbatim>\<open>timedelta\<close> a number of microseconds. The local time zone is taken to have a
  constant offset, so that the difference of two local datetimes is the time elapsed.
  \<^verbatim>\<open>datetime.fromtimestamp\<close> rounds to the nearest microsecond, ties to even, and
  raises outside the years 1 to 9999 (\<^verbatim>\<open>ValueError\<close> or \<^verbatim>\<open>OverflowError\<close>, both
  instances of \<^verbatim>\<open>Exception\<close>; the model raises the first).
\<close>

definition round_half_even :: "rat \<Rightarrow> int" where
  "round_half_even x =
     (let f = \<lfloor>x\<rfloor>; d = x - of_int f
      in if d < 1 / 2 then f else if 1 / 2 < d then f + 1 else if even f then f else f + 1)"

definition datetime_min :: int where
  "datetime_min = - 62135596800000000"

definition datetime_max :: int where
  "datetime_max = 253402300799999999"

definition fromtimestamp :: "rat \<Rightarrow> pyexc + int" where
  "fromtimestamp t =
     (let us = round_half_even (t * 1000000)
      in if datetime_min \<le> us \<and> us \<le> datetime_max then Inr us
         else Inl (PyExc ValueError ''year is out of range'' None))"

definition datetime_timestamp :: "int \<Rightarrow> rat" where
  "datetime_timestamp dt = of_int dt / 1000000"

record verifier =
  secret_key :: bytes
  max_age :: int

definition verifier_init :: "string \<Rightarrow> int \<Rightarrow> verifier" where
  "verifier_init key max_age_seconds =
     \<lparr>secret_key = utf8_encode key, max_age = max_age_seconds * 1000000\<rparr>"

definition update_secret_key :: "string \<Rightarrow> verifier \<Rightarrow> verifier" where
  "update_secret_key new_secret_key v = v\<lparr>secret_key := utf8_encode new_secret_key\<rparr>"

text \<open>
  \<open>now\<close> is what \<^verbatim>\<open>datetime.now()\<close> returns if the call reaches it. With the
  timestamp \<^verbatim>\<open>None\<close> the current time is signed.
\<close>

definition generate_signature :: "pylib \<Rightarrow> verifier \<Rightarrow> int \<Rightarrow> string \<Rightarrow> rat option \<Rightarrow> string" where
  "generate_signature L v now message ts =
     (let t = (case ts of None \<Rightarrow> datetime_timestamp now | Some t \<Rightarrow> t);
          message_with_timestamp = message @ ''|'' @ float_str L t;
          sig = hmac_sha256 L (secret_key v) (utf8_encode message_with_timestamp)
      in b64encode sig)"

text \<open>
  The age check of \<^verbatim>\<open>verify_signature\<close>. \<^verbatim>\<open>if timestamp:\<close> tests the truth value
  of the timestamp: \<^verbatim>\<open>None\<close> and \<^verbatim>\<open>0.0\<close> are both false and skip the check.
\<close>

definition signature_expired :: "verifier \<Rightarrow> int \<Rightarrow> rat option \<Rightarrow> pyexc + bool" where
  "signature_expired v now ts =
     (case ts of
        None \<Rightarrow> Inr False
      | Some t \<Rightarrow>
          if t \<noteq> 0
          then (case fromtimestamp t of
                  Inl e \<Rightarrow> Inl e
                | Inr sig_time \<Rightarrow> Inr (max_age v < now - sig_time))
          else Inr False)"

text \<open>
  \<^verbatim>\<open>verify_signature\<close> returns its verdict and the log entries it wrote (the
  verifier keeps no log of its own: the information lines of its constructor and of
  \<^verbatim>\<open>update_secret_key\<close> are left out). The
  \<^verbatim>\<open>except Exception\<close> clause turns an exception of the \<^verbatim>\<open>try\<close> block into
  \<^verbatim>\<open>False\<close>. \<^verbatim>\<open>hmac.compare_digest\<close> is equality of the two byte strings.
\<close>

definition verify_signature ::
  "pylib \<Rightarrow> verifier \<Rightarrow> int \<Rightarrow> string \<Rightarrow> string \<Rightarrow> rat option \<Rightarrow> bool \<times> log_entry list" where
  "verify_signature L v now message sig ts =
     (case signature_expired v now ts of
        Inl e \<Rightarrow> (False, [(ERROR, ''Error verifying signature: '' @ exc_str e)])
      | Inr True \<Rightarrow> (False, [(WARNING, ''Signature has expired'')])
      | Inr False \<Rightarrow>
          (let expected_signature = generate_signature L v now message ts;
               is_valid = (utf8_encode sig = utf8_encode expected_signature)
           in (is_valid, if \<not> is_valid then [(WARNING, ''Invalid signature detected'')] else [])))"

text \<open>
  The text Python gives a float of integral value below \<open>10\<^sup>1\<^sup>6\<close>: its decimal
  digits followed by \<^verbatim>\<open>.0\<close>.
\<close>

fun dec :: "nat \<Rightarrow> string" where
  "dec n = (if n < 10 then [char_of (48 + n)] else dec (n div 10) @ [char_of (48 + n mod 10)])"

declare dec.simps [simp del]

definition integral_float_str :: "rat \<Rightarrow> string" where
  "integral_float_str t = (if t < 0 then ''-'' else []) @ dec (nat \<lfloor>\<bar>t\<bar>\<rfloor>) @ ''.0''"

text \<open>
  Two instances of the open library functions, to evaluate the code on concrete
  inputs. Their digest is a placeholder and stands for no particular hash function.
  The first refuses every list and string as a dictionary; the second coerces the empty
  list and the empty string to the empty dictionary, as \<^verbatim>\<open>dict([])\<close> and
  \<^verbatim>\<open>dict('')\<close> do, and refuses the rest.
\<close>

definition example_lib :: pylib where
  "example_lib =
     \<lparr>hmac_sha256 = (\<lambda>key msg. key @ msg), float_str = integral_float_str,
      dict_coercion = (\<lambda>v. None)\<rparr>"

definition coercing_lib :: pylib where
  "coercing_lib =
     example_lib\<lparr>dict_coercion := (\<lambda>v. if v = JArr [] \<or> v = JStr [] then Some [] else None)\<rparr>"

definition example_verifier :: verifier where
  "example_verifier = verifier_init ''default-key-change-in-production'' 300"

section \<open>The command pattern (message_processor.py)\<close>

text \<open>
  \<^verbatim>\<open>\w\<close> in a Python 3 string pattern is an alphanumeric character or the
  underscore. Below 256 the alphanumeric characters are the ASCII letters and digits
  and the letters, superscript digits and fractions of Latin-1.
\<close>

definition is_word :: "char \<Rightarrow> bool" where
  "is_word c =
     (let n = (of_char c :: nat)
      in (48 \<le> n \<and> n \<le> 57) \<or> (65 \<le> n \<and> n \<le> 90) \<or> n = 95 \<or> (97 \<le> n \<and> n \<le> 122)
         \<or> n = 170 \<or> n = 178 \<or> n = 179 \<or> n = 181 \<or> n = 185 \<or> n = 186
         \<or> (188 \<le> n \<and> n \<le> 190) \<or> (192 \<le> n \<and> n \<le> 214) \<or> (216 \<le> n \<and> n \<le> 246)
         \<or> 248 \<le> n)"

definition not_rbrace :: "char \<Rightarrow> bool" where
  "not_rbrace c = (c \<noteq> CHR ''}'')"

text \<open>
  \<^verbatim>\<open>COMMAND_PATTERN = r'#(\w+)@(\w+)\{([^}]+)\}'\<close> tried at the start of \<open>s\<close>. Each
  of the three repetitions is greedy and is followed by a character it cannot match
  itself, so the longest run is the only one that can succeed. The result holds the
  three groups: the third is the text strictly between the braces.
\<close>

definition match_at :: "string \<Rightarrow> (string \<times> string \<times> string) option" where
  "match_at s =
     (case s of
        [] \<Rightarrow> None
      | c # r1 \<Rightarrow>
          if c \<noteq> CHR ''#'' \<or> takeWhile is_word r1 = [] then None
          else (case dropWhile is_word r1 of
                  [] \<Rightarrow> None
                | a # r2 \<Rightarrow>
                    if a \<noteq> CHR ''@'' \<or> takeWhile is_word r2 = [] then None
                    else (case dropWhile is_word r2 of
                            [] \<Rightarrow> None
                          | b # r3 \<Rightarrow>
                              if b \<noteq> CHR ''{'' \<or> takeWhile not_rbrace r3 = [] then None
                              else (case dropWhile not_rbrace r3 of
                                      [] \<Rightarrow> None
                                    | e # r4 \<Rightarrow>
                                        Some (takeWhile is_word r1, takeWhile is_word r2,
                                              takeWhile not_rbrace r3)))))"

text \<open>\<^verbatim>\<open>re.search\<close>: the match at the leftmost position that has one.\<close>

fun re_search :: "string \<Rightarrow> (string \<times> string \<times> string) option" where
  "re_search [] = None"
| "re_search (c # cs) =
     (case match_at (c # cs) of Some g \<Rightarrow> Some g | None \<Rightarrow> re_search cs)"

section \<open>json.loads\<close>

text \<open>
  Every error of the decoder is a \<^verbatim>\<open>JSONDecodeError\<close>. Its text is kept without the
  position, and without the quotes around the delimiter it names.
\<close>

definition json_error :: "string \<Rightarrow> pyexc" where
  "json_error msg = PyExc JSONDecodeError msg None"

definition is_ws :: "char \<Rightarrow> bool" where
  "is_ws c = (c = CHR '' '' \<or> c = CHR 0x09 \<or> c = CHR 0x0A \<or> c = CHR 0x0D)"

definition skip_ws :: "string \<Rightarrow> string" where
  "skip_ws s = dropWhile is_ws s"

definition is_digit :: "char \<Rightarrow> bool" where
  "is_digit c = (48 \<le> (of_char c :: nat) \<and> (of_char c :: nat) \<le> 57)"

definition hex_value :: "char \<Rightarrow> nat option" where
  "hex_value c =
     (let n = (of_char c :: nat)
      in if 48 \<le> n \<and> n \<le> 57 then Some (n - 48)
         else if 65 \<le> n \<and> n \<le> 70 then Some (n - 55)
         else if 97 \<le> n \<and> n \<le> 102 then Some (n - 87)
         else None)"

text \<open>\<^verbatim>\<open>_decode_uXXXX\<close>: the value of four hexadecimal digits at the start of \<open>s\<close>.\<close>

definition decode_uXXXX :: "string \<Rightarrow> nat option" where
  "decode_uXXXX s =
     (case s of
        a # b # c # d # r \<Rightarrow>
          (case (hex_value a, hex_value b, hex_value c, hex_value d) of
             (Some x, Some y, Some z, Some w) \<Rightarrow> Some (((x * 16 + y) * 16 + z) * 16 + w)
           | _ \<Rightarrow> None)
      | _ \<Rightarrow> None)"

text \<open>The table \<^verbatim>\<open>BACKSLASH\<close> of json.decoder.\<close>

definition backslash :: "char \<Rightarrow> nat option" where
  "backslash c =
     (if c = CHR 0x22 then Some 34
      else if c = CHR 0x5C then Some 92
      else if c = CHR ''/'' then Some 47
      else if c = CHR ''b'' then Some 8
      else if c = CHR ''f'' then Some 12
      else if c = CHR ''n'' then Some 10
      else if c = CHR ''r'' then Some 13
      else if c = CHR ''t'' then Some 9
      else None)"

text \<open>
  \<^verbatim>\<open>scanstring\<close> in strict mode, from the character after the opening quote: it
  returns the decoded string and the text after the closing quote. A high surrogate
  escape followed by a low surrogate escape is one code point.
\<close>

fun scanstring :: "string \<Rightarrow> ustring \<Rightarrow> pyexc + (ustring \<times> string)" where
  "scanstring [] acc = Inl (json_error ''Unterminated string starting at'')"
| "scanstring (c # cs) acc =
     (if c = CHR 0x22 then Inr (acc, cs)
      else if c = CHR 0x5C then
        (case cs of
           [] \<Rightarrow> Inl (json_error ''Unterminated string starting at'')
         | esc # r \<Rightarrow>
             if esc \<noteq> CHR ''u'' then
               (case backslash esc of
                  None \<Rightarrow> Inl (json_error (''Invalid '' @ [CHR 0x5C] @ ''escape''))
                | Some ch \<Rightarrow> scanstring r (acc @ [ch]))
             else
               (case decode_uXXXX r of
                  None \<Rightarrow> Inl (json_error (''Invalid '' @ [CHR 0x5C] @ ''uXXXX escape''))
                | Some uni \<Rightarrow>
                    if 0xD800 \<le> uni \<and> uni \<le> 0xDBFF \<and> take 2 (drop 4 r) = [CHR 0x5C, CHR ''u'']
                    then (case decode_uXXXX (drop 6 r) of
                            None \<Rightarrow> Inl (json_error (''Invalid '' @ [CHR 0x5C] @ ''uXXXX escape''))
                          | Some uni2 \<Rightarrow>
                              if 0xDC00 \<le> uni2 \<and> uni2 \<le> 0xDFFF
                              then scanstring (drop 10 r)
                                     (acc @ [0x10000 + ((uni - 0xD800) * 1024 + (uni2 - 0xDC00))])
                              else scanstring (drop 4 r) (acc @ [uni]))
                    else scanstring (drop 4 r) (acc @ [uni])))
      else if (of_char c :: nat) < 32 then Inl (json_error ''Invalid control character at'')
      else scanstring cs (acc @ [of_char c]))"

text \<open>
  \<^verbatim>\<open>NUMBER_RE = (-?(?:0|[1-9]\d*))(\.\d+)?([eE][-+]?\d+)?\<close> matched at the start of
  the text: the integer part, the fraction and the exponent (empty when the group
  does not take part), and the text after the match.
\<close>

definition match_frac :: "string \<Rightarrow> string \<times> string" where
  "match_frac s =
     (case s of
        [] \<Rightarrow> ([], s)
      | c # r \<Rightarrow>
          if c = CHR ''.'' \<and> takeWhile is_digit r \<noteq> []
          then (c # takeWhile is_digit r, dropWhile is_digit r)
          else ([], s))"

definition match_exp :: "string \<Rightarrow> string \<times> string" where
  "match_exp s =
     (case s of
        [] \<Rightarrow> ([], s)
      | c # r \<Rightarrow>
          if c = CHR ''e'' \<or> c = CHR ''E''
          then (case r of
                  [] \<Rightarrow> ([], s)
                | g # q \<Rightarrow>
                    if (g = CHR ''-'' \<or> g = CHR ''+'') \<and> takeWhile is_digit q \<noteq> []
                    then (c # g # takeWhile is_digit q, dropWhile is_digit q)
                    else if takeWhile is_digit r \<noteq> []
                    then (c # takeWhile is_digit r, dropWhile is_digit r)
                    else ([], s))
          else ([], s))"

definition match_integer :: "string \<Rightarrow> (string \<times> string) option" where
  "match_integer s =
     (case s of
        [] \<Rightarrow> None
      | c # r \<Rightarrow>
          if c = CHR ''0'' then Some ([c], r)
          else if is_digit c then Some (c # takeWhile is_digit r, dropWhile is_digit r)
          else None)"

definition match_number :: "string \<Rightarrow> (string \<times> string \<times> string \<times> string) option" where
  "match_number s =
     (case (case s of
              [] \<Rightarrow> None
            | c # r \<Rightarrow>
                if c = CHR ''-''
                then map_option (\<lambda>(i, rest). (c # i, rest)) (match_integer r)
                else match_integer s) of
        None \<Rightarrow> None
      | Some (integer, r1) \<Rightarrow>
          (case match_frac r1 of
             (fract, r2) \<Rightarrow> (case match_exp r2 of (expo, r3) \<Rightarrow> Some (integer, fract, expo, r3))))"

text \<open>\<^verbatim>\<open>int(integer)\<close> on an optional minus sign and decimal digits.\<close>

definition digits_value :: "string \<Rightarrow> int" where
  "digits_value ds = foldl (\<lambda>a c. 10 * a + (of_char c - 48)) 0 ds"

definition parse_int :: "string \<Rightarrow> int" where
  "parse_int s = (case s of [] \<Rightarrow> 0 | c # r \<Rightarrow> if c = CHR ''-'' then - digits_value r else digits_value s)"

text \<open>\<^verbatim>\<open>dict(pairs)\<close>: a repeated key keeps its first position and takes the last value.\<close>

definition py_dict :: "('k \<times> 'v) list \<Rightarrow> ('k \<times> 'v) list" where
  "py_dict pairs = foldl (\<lambda>d (k, v). AList.update k v d) [] pairs"

text \<open>What the scanners leave is shorter than what they were given.\<close>

lemma length_skip_ws: "length (skip_ws s) \<le> length s"
  by (simp add: skip_ws_def length_dropWhile_le)

lemma skip_ws_Cons_length: "skip_ws s = c # r \<Longrightarrow> length r < length s"
  using length_skip_ws [of s] by simp

lemma length_skip_ws_eq: "length (skip_ws s) = length s - length (takeWhile is_ws s)"
  using arg_cong [OF takeWhile_dropWhile_id [of is_ws s], of length]
  by (simp add: skip_ws_def del: takeWhile_dropWhile_id)

lemma scanstring_length_aux:
  "length s \<le> n \<Longrightarrow> scanstring s acc = Inr (k, r) \<Longrightarrow> length r < length s"
proof (induction n arbitrary: s acc)
  case 0
  then show ?case by simp
next
  case (Suc n)
  note IH = Suc.IH [rotated]
  show ?case
  proof (cases s)
    case Nil
    with Suc.prems show ?thesis by simp
  next
    case (Cons c cs)
    with Suc.prems show ?thesis
      by (auto split: if_splits list.splits option.splits dest!: IH)
  qed
qed

lemma scanstring_length: "scanstring s acc = Inr (k, r) \<Longrightarrow> length r < length s"
  using scanstring_length_aux [of s "length s"] by simp

text \<open>
  The branches of \<^verbatim>\<open>scan_once\<close> that do not recurse: the three literals, a number,
  and the three constants Python accepts beyond JSON.
\<close>

definition scan_atom :: "string \<Rightarrow> pyexc + (json \<times> string)" where
  "scan_atom s =
     (if take 4 s = ''null'' then Inr (JNull, drop 4 s)
      else if take 4 s = ''true'' then Inr (JBool True, drop 4 s)
      else if take 5 s = ''false'' then Inr (JBool False, drop 5 s)
      else (case match_number s of
              Some (integer, fract, expo, rest) \<Rightarrow>
                if fract \<noteq> [] \<or> expo \<noteq> [] then Inr (JFloat (integer @ fract @ expo), rest)
                else Inr (JInt (parse_int integer), rest)
            | None \<Rightarrow>
                if take 3 s = ''NaN'' then Inr (JFloat ''NaN'', drop 3 s)
                else if take 8 s = ''Infinity'' then Inr (JFloat ''Infinity'', drop 8 s)
                else if take 9 s = ''-Infinity'' then Inr (JFloat ''-Infinity'', drop 9 s)
                else Inl (json_error ''Expecting value'')))"

text \<open>
  The scanner of json.scanner and the loops of \<^verbatim>\<open>JSONArray\<close> and \<^verbatim>\<open>JSONObject\<close> of
  json.decoder. \<open>parse_value\<close> is \<^verbatim>\<open>scan_once\<close> (with \<open>scan_atom\<close>) on the text from the current index
  on; it returns the value and the text after it. \<open>array_loop\<close> starts at an element,
  \<open>object_loop\<close> after the opening quote of a key. The two tests on lengths always
  hold (lemma \<open>parse_value_length\<close>); they make the recursion through the text left by
  an inner value well-founded.
\<close>

function parse_value :: "string \<Rightarrow> pyexc + (json \<times> string)"
  and array_loop :: "string \<Rightarrow> json list \<Rightarrow> pyexc + (json \<times> string)"
  and object_loop :: "string \<Rightarrow> (ustring \<times> json) list \<Rightarrow> pyexc + (json \<times> string)"
where
  "parse_value s =
     (case s of
        [] \<Rightarrow> Inl (json_error ''Expecting value'')
      | c # cs \<Rightarrow>
          if c = CHR 0x22 then
            (case scanstring cs [] of Inl e \<Rightarrow> Inl e | Inr (str, rest) \<Rightarrow> Inr (JStr str, rest))
          else if c = CHR ''{'' then
            (case skip_ws cs of
               [] \<Rightarrow> Inl (json_error ''Expecting property name enclosed in double quotes'')
             | d # rest \<Rightarrow>
                 if d = CHR ''}'' then Inr (JObj [], rest)
                 else if d = CHR 0x22 then object_loop rest []
                 else Inl (json_error ''Expecting property name enclosed in double quotes''))
          else if c = CHR ''['' then
            (case skip_ws cs of
               [] \<Rightarrow> array_loop [] []
             | d # rest \<Rightarrow>
                 if d = CHR '']'' then Inr (JArr [], rest) else array_loop (d # rest) [])
          else scan_atom s)"
| "array_loop s values =
     (case parse_value s of
        Inl e \<Rightarrow> Inl e
      | Inr (v, s1) \<Rightarrow>
          if length s1 < length s then
            (case skip_ws s1 of
               [] \<Rightarrow> Inl (json_error ''Expecting , delimiter'')
             | d # s2 \<Rightarrow>
                 if d = CHR '']'' then Inr (JArr (values @ [v]), s2)
                 else if d = CHR '','' then array_loop (skip_ws s2) (values @ [v])
                 else Inl (json_error ''Expecting , delimiter''))
          else Inl (json_error ''Expecting value''))"
| "object_loop s pairs =
     (case scanstring s [] of
        Inl e \<Rightarrow> Inl e
      | Inr (key, s1) \<Rightarrow>
          (case skip_ws s1 of
             [] \<Rightarrow> Inl (json_error ''Expecting : delimiter'')
           | c # s2 \<Rightarrow>
               if c \<noteq> CHR '':'' then Inl (json_error ''Expecting : delimiter'')
               else (case parse_value (skip_ws s2) of
                       Inl e \<Rightarrow> Inl e
                     | Inr (v, s4) \<Rightarrow>
                         if length s4 < length (skip_ws s2) then
                           (case skip_ws s4 of
                              [] \<Rightarrow> Inl (json_error ''Expecting , delimiter'')
                            | d # s5 \<Rightarrow>
                                if d = CHR ''}'' then Inr (JObj (py_dict (pairs @ [(key, v)])), s5)
                                else if d = CHR '','' then
                                  (case skip_ws s5 of
                                     [] \<Rightarrow> Inl (json_error
                                            ''Expecting property name enclosed in double quotes'')
                                   | q # s6 \<Rightarrow>
                                       if q = CHR 0x22 then object_loop s6 (pairs @ [(key, v)])
                                       else Inl (json_error
                                              ''Expecting property name enclosed in double quotes''))
                                else Inl (json_error ''Expecting , delimiter''))
                         else Inl (json_error ''Expecting value''))))"
  by pat_completeness auto
termination
  apply (relation "measure (\<lambda>x. case x of Inl s \<Rightarrow> 2 * length s
                                 | Inr (Inl (s, vs)) \<Rightarrow> 2 * length s + 1
                                 | Inr (Inr (s, ps)) \<Rightarrow> 2 * length s + 1)")
  apply (auto dest!: skip_ws_Cons_length scanstring_length simp: length_skip_ws_eq)
  done

declare parse_value.simps [simp del] array_loop.simps [simp del] object_loop.simps [simp del]

text \<open>
  \<^verbatim>\<open>json.loads\<close>: one value, with white space before and after it and nothing else.
\<close>

definition json_loads :: "string \<Rightarrow> pyexc + json" where
  "json_loads s =
     (case parse_value (skip_ws s) of
        Inl e \<Rightarrow> Inl e
      | Inr (v, rest) \<Rightarrow> if skip_ws rest = [] then Inr v else Inl (json_error ''Extra data''))"

section \<open>MessageProcessor (message_processor.py)\<close>

text \<open>
  The validation of \<^verbatim>\<open>payload: Dict[str, Any]\<close>. A dictionary decoded from JSON has
  string keys and is taken as it is. \<^verbatim>\<open>None\<close>, a boolean and a number are refused by
  every version of pydantic (\<^verbatim>\<open>dict\<close> of them raises \<^verbatim>\<open>TypeError\<close>). For a list and
  for a string the answer is the library's, left open in \<open>dict_coercion\<close>.
\<close>

definition validate_payload :: "pylib \<Rightarrow> json \<Rightarrow> (ustring \<times> json) list option" where
  "validate_payload L pl =
     (case pl of
        JObj kvs \<Rightarrow> Some kvs
      | JArr xs \<Rightarrow> dict_coercion L pl
      | JStr x \<Rightarrow> dict_coercion L pl
      | JNull \<Rightarrow> None
      | JBool b \<Rightarrow> None
      | JInt n \<Rightarrow> None
      | JFloat f \<Rightarrow> None)"

text \<open>
  \<^verbatim>\<open>Command(command_type=..., target_system=..., payload=..., timestamp=...)\<close>: the
  model is validated against its field types. The two tokens are strings and the
  timestamp is a float; a payload that is refused raises \<^verbatim>\<open>ValidationError\<close>, an
  instance of \<^verbatim>\<open>Exception\<close>.
\<close>

definition Command_init ::
  "pylib \<Rightarrow> string \<Rightarrow> string \<Rightarrow> json \<Rightarrow> rat option \<Rightarrow> pyexc + command" where
  "Command_init L ctype target pl ts =
     (case validate_payload L pl of
        Some kvs \<Rightarrow>
          Inr \<lparr>command_type = ctype, target_system = target, payload = kvs,
               signature = None, timestamp = ts\<rparr>
      | None \<Rightarrow> Inl (PyExc ValidationError ''payload: value is not a valid dict'' None))"

record processor =
  command_cache :: "string \<rightharpoonup> command"
  processor_log :: "log_entry list"

definition logP :: "log_level \<Rightarrow> string \<Rightarrow> processor \<Rightarrow> processor" where
  "logP lvl msg st = st\<lparr>processor_log := processor_log st @ [(lvl, msg)]\<rparr>"

definition processor_init :: processor where
  "processor_init =
     \<lparr>command_cache = Map.empty, processor_log = [(INFO, ''Initialized MessageProcessor'')]\<rparr>"

definition generate_cache_key :: "pylib \<Rightarrow> command \<Rightarrow> string" where
  "generate_cache_key L c =
     command_type c @ ''_'' @ target_system c @ ''_''
       @ (case timestamp c of None \<Rightarrow> ''None'' | Some t \<Rightarrow> float_str L t)"

text \<open>
  The body of the \<^verbatim>\<open>try\<close> block of \<^verbatim>\<open>extract_command\<close>. The inner handler catches
  \<^verbatim>\<open>json.JSONDecodeError\<close> only; an exception it does not catch leaves the body.
\<close>

definition extract_command_body ::
  "pylib \<Rightarrow> int \<Rightarrow> string \<Rightarrow> processor \<Rightarrow> (pyexc + command option) \<times> processor" where
  "extract_command_body L now message st =
     (case re_search message of
        None \<Rightarrow> (Inr None, logP DEBUG ''No command found in message'' st)
      | Some (ctype, target, payload_str) \<Rightarrow>
          (case json_loads payload_str of
             Inl e \<Rightarrow>
               if exc_type e = JSONDecodeError
               then (Inr None, logP ERROR ''Invalid JSON payload in command'' st)
               else (Inl e, st)
           | Inr pl \<Rightarrow>
               (case Command_init L ctype target pl (Some (datetime_timestamp now)) of
                  Inl e \<Rightarrow> (Inl e, st)
                | Inr cmd \<Rightarrow>
                    (Inr (Some cmd),
                     logP INFO (''Extracted command: '' @ ctype @ '' for '' @ target)
                       (st\<lparr>command_cache := (command_cache st)(generate_cache_key L cmd \<mapsto> cmd)\<rparr>)))))"

text \<open>
  \<^verbatim>\<open>extract_command\<close>: the outer \<^verbatim>\<open>except Exception\<close> clause logs and returns
  \<^verbatim>\<open>None\<close>. \<open>Inl\<close> is an exception that leaves \<^verbatim>\<open>extract_command\<close>.
\<close>

definition extract_command ::
  "pylib \<Rightarrow> int \<Rightarrow> string \<Rightarrow> processor \<Rightarrow> (pyexc + command option) \<times> processor" where
  "extract_command L now message st =
     (case extract_command_body L now message st of
        (Inl e, st1) \<Rightarrow>
          if is_Exception (exc_type e)
          then (Inr None, logP ERROR (''Error extracting command: '' @ exc_str e) st1)
          else (Inl e, st1)
      | (Inr res, st1) \<Rightarrow> (Inr res, st1))"

datatype pyvalue = PyFloat rat | PyInt int | PyBool bool | PyStr string

text \<open>
  \<^verbatim>\<open>process_message\<close>; \<open>now0\<close> is the clock when the metadata is built and \<open>now1\<close> the
  clock when the command is.
\<close>

definition process_message ::
  "pylib \<Rightarrow> int \<Rightarrow> int \<Rightarrow> string \<Rightarrow> processor
     \<Rightarrow> (pyexc + (command option \<times> (string \<rightharpoonup> pyvalue))) \<times> processor" where
  "process_message L now0 now1 message st =
     (let metadata = [''timestamp'' \<mapsto> PyFloat (datetime_timestamp now0),
                      ''length'' \<mapsto> PyInt (int (length message)),
                      ''has_command'' \<mapsto> PyBool False]
      in case extract_command L now1 message st of
           (Inl e, st1) \<Rightarrow> (Inl e, st1)
         | (Inr None, st1) \<Rightarrow> (Inr (None, metadata), st1)
         | (Inr (Some cmd), st1) \<Rightarrow>
             (Inr (Some cmd,
                   metadata(''has_command'' \<mapsto> PyBool True,
                            ''command_type'' \<mapsto> PyStr (command_type cmd),
                            ''target_system'' \<mapsto> PyStr (target_system cmd))),
              st1))"

definition get_cached_command :: "string \<Rightarrow> processor \<Rightarrow> command option" where
  "get_cached_command cache_key st = command_cache st cache_key"

definition clear_cache :: "processor \<Rightarrow> processor" where
  "clear_cache st = logP INFO ''Command cache cleared'' (st\<lparr>command_cache := Map.empty\<rparr>)"

text \<open>
  \<open>consumed s r\<close>: the text \<open>r\<close> left by a scanner is shorter than the text \<open>s\<close> it
  was given and holds no character that \<open>s\<close> does not hold.
\<close>

definition consumed :: "string \<Rightarrow> string \<Rightarrow> bool" where
  "consumed s r \<longleftrightarrow> length r < length s \<and> set r \<subseteq> set s"

section \<open>Properties of the router\<close>

lemma handlers_logR [simp]: "handlers (logR lvl msg r) = handlers r"
  by (simp add: logR_def)

lemma initialized_logR [simp]: "initialized (logR lvl msg r) = initialized r"
  by (simp add: logR_def)

lemma router_log_logR [simp]: "router_log (logR lvl msg r) = router_log r @ [(lvl, msg)]"
  by (simp add: logR_def)

lemma handlers_initialize [simp]: "handlers (initialize_handlers r) = handlers r"
  by (simp add: initialize_handlers_def)

lemma handlers_register:
  "handlers (register_handler x h r) = (handlers r)(x \<mapsto> h)"
  by (simp add: register_handler_def Let_def)

lemma router_log_register:
  "router_log (register_handler x h r) =
     router_log r
       @ (if x \<in> dom (handlers r) then [(WARNING, ''Overwriting existing handler for '' @ x)] else [])
       @ [(INFO, ''Registered handler for '' @ x)]"
  by (simp add: register_handler_def Let_def)

text \<open>
  C4. Routing a command whose target system has no entry in the registry raises the
  routing error (a \<^verbatim>\<open>ValueError\<close> in the code) whose text is
  \<^verbatim>\<open>No handler found for system: \<close> followed by that target system. No handler is
  instantiated or invoked: the world the handlers act on is returned as it was, whatever
  the registry holds under other keys, and the only log entry added after initialisation
  is the error.
\<close>

theorem route_unregistered_target:
  assumes "handlers r (target_system cmd) = None"
  shows "route_command cmd r w =
           (Inl (PyExc ValueError (''No handler found for system: '' @ target_system cmd) None),
            logR ERROR (''No handler found for system: '' @ target_system cmd)
              (if initialized r then r else initialize_handlers r),
            w)"
  using assms by (simp add: route_command_def Let_def)

theorem route_unregistered_target_witness:
  "handlers (register_handler ''y'' (ok_handler 7) router_init) (target_system ping) = None
   \<and> route_command ping (register_handler ''y'' (ok_handler 7) router_init) [] =
       (Inl (PyExc ValueError ''No handler found for system: x'' None),
        logR ERROR ''No handler found for system: x''
          (initialize_handlers (register_handler ''y'' (ok_handler 7) router_init)),
        [])"
proof -
  have h: "handlers (register_handler ''y'' (ok_handler 7) router_init) (target_system ping) = None"
    by (simp add: handlers_register router_init_def ping_def)
  have i: "\<not> initialized (register_handler ''y'' (ok_handler 7) (router_init :: (nat list, nat) router))"
    by (simp add: register_handler_def router_init_def Let_def)
  show ?thesis
    using h i route_unregistered_target [OF h, of "[]"] by (simp add: ping_def)
qed

lemma initialized_register [simp]: "initialized (register_handler x h r) = initialized r"
  by (simp add: register_handler_def Let_def)

text \<open>
  C5, as the code has it. When the handler registered for the command's target system
  raises \<open>e\<close>, in its constructor or in \<^verbatim>\<open>handle_command\<close>, and \<open>e\<close> is an instance
  of \<^verbatim>\<open>Exception\<close>, \<^verbatim>\<open>route_command\<close> logs and raises a \<^verbatim>\<open>RuntimeError\<close> (the
  code's handler error) whose text is \<^verbatim>\<open>Error handling command for <target>: <str(e)>\<close>
  and whose cause is \<open>e\<close>. The class raised is \<^verbatim>\<open>RuntimeError\<close> whatever the class
  of \<open>e\<close> is. An exception that is not an instance of \<^verbatim>\<open>Exception\<close> passes through
  \<^verbatim>\<open>route_command\<close> unchanged.
\<close>

theorem route_handler_error:
  assumes reg: "handlers r (target_system cmd) = Some hc"
    and fails: "hc w = (Inl e, w') \<or> (\<exists>h w1. hc w = (Inr h, w1) \<and> h cmd w1 = (Inl e, w'))"
  shows "route_command cmd r w =
           (if is_Exception (exc_type e)
            then (Inl (PyExc RuntimeError
                         (''Error handling command for '' @ target_system cmd @ '': '' @ exc_str e)
                         (Some e)),
                  logR ERROR (''Error handling command for '' @ target_system cmd @ '': '' @ exc_str e)
                    (if initialized r then r else initialize_handlers r),
                  w')
            else (Inl e, if initialized r then r else initialize_handlers r, w'))"
proof -
  let ?r1 = "if initialized r then r else initialize_handlers r"
  have "dispatch hc cmd ?r1 w = handler_failed (target_system cmd) e ?r1 w'"
    using fails by (auto simp: dispatch_def)
  moreover have "route_command cmd r w = dispatch hc cmd ?r1 w"
    using reg by (simp add: route_command_def Let_def)
  ultimately show ?thesis
    by (simp add: handler_failed_def Let_def)
qed

theorem route_handler_error_witness:
  "handlers (register_handler ''x'' (failing_handler (PyExc (OtherException ''HTTPException'') ''boom'' None))
       router_init) (target_system ping)
     = Some (failing_handler (PyExc (OtherException ''HTTPException'') ''boom'' None))
   \<and> (\<exists>h w1. failing_handler (PyExc (OtherException ''HTTPException'') ''boom'' None) [] = (Inr h, w1)
         \<and> h ping w1 = (Inl (PyExc (OtherException ''HTTPException'') ''boom'' None), [0]))
   \<and> fst (route_command ping
            (register_handler ''x'' (failing_handler (PyExc (OtherException ''HTTPException'') ''boom'' None))
               router_init) [])
       = Inl (PyExc RuntimeError ''Error handling command for x: boom''
                (Some (PyExc (OtherException ''HTTPException'') ''boom'' None)))"
proof -
  let ?e = "PyExc (OtherException ''HTTPException'') ''boom'' None"
  let ?r = "register_handler ''x'' (failing_handler ?e) router_init"
  have reg: "handlers ?r (target_system ping) = Some (failing_handler ?e)"
    by (simp add: handlers_register ping_def)
  have run: "\<exists>h w1. failing_handler ?e [] = (Inr h, w1) \<and> h ping w1 = (Inl ?e, [0])"
    by (simp add: failing_handler_def)
  from run have fails: "failing_handler ?e [] = (Inl ?e, [0])
      \<or> (\<exists>h w1. failing_handler ?e [] = (Inr h, w1) \<and> h ping w1 = (Inl ?e, [0]))"
    by blast
  show ?thesis
    using reg run route_handler_error [OF reg fails] by (simp add: ping_def)
qed

text \<open>
  The claim C5 as it is written fails: a handler that raises \<^verbatim>\<open>asyncio.CancelledError\<close>,
  which derives from \<^verbatim>\<open>BaseException\<close> only, makes \<^verbatim>\<open>route_command\<close> raise that
  very exception, with the handler's own class and no target system in its text.
\<close>

theorem route_handler_error_counterexample:
  "fst (route_command ping
         (register_handler ''x'' (failing_handler (PyExc CancelledError ''cancelled'' None)) router_init) [])
     = Inl (PyExc CancelledError ''cancelled'' None)"
  by (simp add: route_command_def Let_def handlers_register dispatch_def failing_handler_def
      handler_failed_def ping_def)

text \<open>
  C8. After a target system has been registered twice, the second registration has
  appended a warning (\<^verbatim>\<open>Overwriting existing handler for <name>\<close>) and its own
  information entry to the log, and routing a command for that target system runs the
  \<^verbatim>\<open>try\<close> block on the second handler class: that class is instantiated and its
  instance handles the command.
\<close>

theorem reregister_last_writer_wins:
  assumes "target_system cmd = x"
  shows "route_command cmd (register_handler x h2 (register_handler x h1 r)) w =
           dispatch h2 cmd
             (if initialized r then register_handler x h2 (register_handler x h1 r)
              else initialize_handlers (register_handler x h2 (register_handler x h1 r))) w
         \<and> router_log (register_handler x h2 (register_handler x h1 r)) =
             router_log (register_handler x h1 r)
               @ [(WARNING, ''Overwriting existing handler for '' @ x),
                  (INFO, ''Registered handler for '' @ x)]"
  using assms
  by (simp add: route_command_def Let_def handlers_register router_log_register)

theorem reregister_last_writer_wins_witness:
  "target_system ping = ''x''
   \<and> route_command ping
       (register_handler ''x'' (ok_handler 2) (register_handler ''x'' (ok_handler 1) router_init)) []
     = (Inr 2,
        logR INFO ''Successfully routed command to x''
          (initialize_handlers
             (register_handler ''x'' (ok_handler 2) (register_handler ''x'' (ok_handler 1) router_init))),
        [2])
   \<and> router_log
       (register_handler ''x'' (ok_handler 2)
          (register_handler ''x'' (ok_handler 1) (router_init :: (nat list, nat) router)))
     = [(INFO, ''Initializing CommandRouter''), (INFO, ''Registered handler for x''),
        (WARNING, ''Overwriting existing handler for x''), (INFO, ''Registered handler for x'')]"
proof -
  have t: "target_system ping = ''x''"
    by (simp add: ping_def)
  have i: "\<not> initialized (router_init :: (nat list, nat) router)"
    by (simp add: router_init_def)
  have d: "dispatch (ok_handler 2) ping r [] =
             (Inr 2, logR INFO ''Successfully routed command to x'' r, [2])" for r
    by (simp add: dispatch_def ok_handler_def ping_def)
  have l: "router_log (register_handler ''x'' (ok_handler 1) (router_init :: (nat list, nat) router))
             = [(INFO, ''Initializing CommandRouter''), (INFO, ''Registered handler for x'')]"
    by (simp add: router_log_register router_init_def)
  show ?thesis
    using t i d l
      reregister_last_writer_wins [OF t, of "ok_handler 2" "ok_handler 1" router_init "[]"]
    by simp
qed

section \<open>Properties of the signature verifier\<close>

lemma utf8_char_inj:
  assumes eq: "utf8_char a @ xs = utf8_char b @ ys"
  shows "a = b \<and> xs = ys"
proof -
  define na nb where "na = (of_char a :: nat)" and "nb = (of_char b :: nat)"
  have la: "na < 256" and lb: "nb < 256"
    by (simp_all add: na_def nb_def)
  have hi: "(of_char (char_of (192 + n div 64)) :: nat) = 192 + n div 64"
    and lo: "(of_char (char_of (128 + n mod 64)) :: nat) = 128 + n mod 64"
    if "n < 256" for n :: nat
    using that by (simp_all add: mod_if)
  consider (ss) "na < 128" "nb < 128" | (sl) "na < 128" "\<not> nb < 128"
    | (ls) "\<not> na < 128" "nb < 128" | (ll) "\<not> na < 128" "\<not> nb < 128"
    by blast
  then show ?thesis
  proof cases
    case ss
    then show ?thesis using eq by (simp add: utf8_char_def Let_def na_def nb_def)
  next
    case sl
    then have "a = char_of (192 + nb div 64)"
      using eq by (simp add: utf8_char_def Let_def na_def nb_def)
    then have "na = 192 + nb div 64"
      using hi [OF lb] by (simp add: na_def)
    then show ?thesis using sl by simp
  next
    case ls
    then have "b = char_of (192 + na div 64)"
      using eq by (simp add: utf8_char_def Let_def na_def nb_def)
    then have "nb = 192 + na div 64"
      using hi [OF la] by (simp add: nb_def)
    then show ?thesis using ls by simp
  next
    case ll
    then have h: "char_of (192 + na div 64) = (char_of (192 + nb div 64) :: char)"
      and l: "char_of (128 + na mod 64) = (char_of (128 + nb mod 64) :: char)"
      and r: "xs = ys"
      using eq by (simp_all add: utf8_char_def Let_def na_def nb_def)
    from h have "(of_char (char_of (192 + na div 64) :: char) :: nat)
                   = of_char (char_of (192 + nb div 64) :: char)"
      by simp
    then have d: "na div 64 = nb div 64"
      using hi [OF la] hi [OF lb] by simp
    from l have "(of_char (char_of (128 + na mod 64) :: char) :: nat)
                   = of_char (char_of (128 + nb mod 64) :: char)"
      by simp
    then have m: "na mod 64 = nb mod 64"
      using lo [OF la] lo [OF lb] by simp
    have "na = nb"
      using d m by (metis div_mult_mod_eq)
    then show ?thesis using r by (simp add: na_def nb_def)
  qed
qed

lemma utf8_encode_inj: "utf8_encode s = utf8_encode s' \<Longrightarrow> s = s'"
proof (induction s arbitrary: s')
  case Nil
  then show ?case
    by (cases s') (auto simp: utf8_encode_def utf8_char_def Let_def split: if_splits)
next
  case (Cons c s)
  show ?case
  proof (cases s')
    case Nil
    then show ?thesis using Cons.prems
      by (auto simp: utf8_encode_def utf8_char_def Let_def split: if_splits)
  next
    case (Cons c' t)
    with Cons.prems have "utf8_char c @ utf8_encode s = utf8_char c' @ utf8_encode t"
      by (simp add: utf8_encode_def)
    then have "c = c'" "utf8_encode s = utf8_encode t"
      using utf8_char_inj by blast+
    then show ?thesis using Cons.IH local.Cons by simp
  qed
qed

lemma compare_digest_iff: "utf8_encode s = utf8_encode s' \<longleftrightarrow> s = s'"
  using utf8_encode_inj by blast

lemma generate_signature_Some:
  "generate_signature L v now s (Some t) = generate_signature L v now' s (Some t)"
  by (simp add: generate_signature_def)

lemma fromtimestamp_seconds:
  "datetime_min \<le> n * 1000000 \<Longrightarrow> n * 1000000 \<le> datetime_max
     \<Longrightarrow> fromtimestamp (of_int n) = Inr (n * 1000000)"
proof -
  assume a: "datetime_min \<le> n * 1000000" "n * 1000000 \<le> datetime_max"
  have "(of_int n :: rat) * 1000000 = of_int (n * 1000000)"
    by simp
  then have "round_half_even (of_int n * 1000000) = n * 1000000"
    unfolding round_half_even_def by (simp only: floor_of_int Let_def) simp
  then show ?thesis
    using a by (simp add: fromtimestamp_def Let_def)
qed

text \<open>
  What \<^verbatim>\<open>verify_signature\<close> answers on a signature of its own, for any timestamp.
\<close>

lemma verify_own_signature:
  "fst (verify_signature L v now s (generate_signature L v now' s (Some t)) (Some t))
     = (t = 0 \<or> (\<exists>d. fromtimestamp t = Inr d \<and> now - d \<le> max_age v))"
proof (cases "t = 0")
  case True
  then show ?thesis
    by (simp add: verify_signature_def signature_expired_def generate_signature_def)
next
  case False
  show ?thesis
  proof (cases "fromtimestamp t")
    case (Inl e)
    with False show ?thesis
      by (simp add: verify_signature_def signature_expired_def)
  next
    case (Inr d)
    with False show ?thesis
      by (cases "max_age v < now - d")
        (simp_all add: verify_signature_def signature_expired_def generate_signature_def)
  qed
qed

text \<open>
  C1, as the code has it. For every message \<open>s\<close> and every timestamp \<open>t\<close> that is not
  expired when the signature is verified (\<open>t\<close> converts to a datetime and the current
  time is at most \<^verbatim>\<open>max_age\<close> later than it), verifying the signature produced for
  \<open>(s, t)\<close> together with \<open>t\<close>, under the same key, returns true.
\<close>

theorem sign_verify_roundtrip:
  assumes "fromtimestamp t = Inr d" and "now - d \<le> max_age v"
  shows "fst (verify_signature L v now s (generate_signature L v now' s (Some t)) (Some t))"
  using assms verify_own_signature [of L v now s now' t] by simp

theorem sign_verify_roundtrip_witness:
  "fromtimestamp 1700000000 = Inr 1700000000000000
   \<and> 1700000300000000 - 1700000000000000 \<le> max_age example_verifier
   \<and> fst (verify_signature example_lib example_verifier 1700000300000000 ''status''
          (generate_signature example_lib example_verifier 1700000000000000 ''status''
             (Some 1700000000))
          (Some 1700000000))"
proof -
  have f: "fromtimestamp 1700000000 = Inr 1700000000000000"
    using fromtimestamp_seconds [of 1700000000] by (simp add: datetime_min_def datetime_max_def)
  have m: "1700000300000000 - 1700000000000000 \<le> max_age example_verifier"
    by (simp add: example_verifier_def verifier_init_def)
  from f m sign_verify_roundtrip [OF f m, of example_lib "''status''" 1700000000000000]
  show ?thesis by simp
qed

text \<open>
  The claim C1 as it is written fails: the signature made for the timestamp
  1700000000 is refused, with that timestamp and under the same key, once the clock
  reads 301 seconds later and \<^verbatim>\<open>max_age\<close> is 300 seconds.
\<close>

theorem sign_verify_roundtrip_counterexample:
  "\<not> fst (verify_signature example_lib example_verifier 1700000301000000 ''status''
            (generate_signature example_lib example_verifier 1700000000000000 ''status''
               (Some 1700000000))
            (Some 1700000000))"
proof -
  have f: "fromtimestamp 1700000000 = Inr 1700000000000000"
    using fromtimestamp_seconds [of 1700000000] by (simp add: datetime_min_def datetime_max_def)
  have m: "max_age example_verifier = 300000000"
    by (simp add: example_verifier_def verifier_init_def)
  show ?thesis
    using f m by (simp add: verify_signature_def signature_expired_def)
qed

text \<open>
  C2, as the code has it. Called without a timestamp, \<^verbatim>\<open>verify_signature\<close> makes no
  age check and does not reject for the missing timestamp: it compares the signature
  with the one \<^verbatim>\<open>generate_signature\<close> produces for the message at the current clock
  reading, and returns true exactly when the two are equal.
\<close>

theorem verify_without_timestamp:
  "fst (verify_signature L v now message sig None)
     = (sig = generate_signature L v now message (Some (datetime_timestamp now)))"
  by (simp add: verify_signature_def signature_expired_def generate_signature_def
      compare_digest_iff Let_def)

text \<open>
  The claim C2 as it is written fails: with the timestamp absent, the signature made
  for the timestamp 1700000000 is accepted when the clock reads 1700000000 seconds.
\<close>

theorem verify_without_timestamp_counterexample:
  "fst (verify_signature example_lib example_verifier 1700000000000000 ''status''
          (generate_signature example_lib example_verifier 1700000000000000 ''status''
             (Some 1700000000))
          None)"
  by (simp add: verify_signature_def signature_expired_def generate_signature_def
      datetime_timestamp_def Let_def)

text \<open>
  C3 on the code. The age check is guarded by the truth value of the timestamp, and the
  float zero is false: the signature made for the timestamp 0.0 is accepted with that
  timestamp whatever the clock reads, here at 1700000000 seconds with a \<^verbatim>\<open>max_age\<close>
  of 300 seconds, where the claim requires it to be refused.
\<close>

theorem verify_epoch_timestamp_never_expires:
  "max_age example_verifier < 1700000000000000 - 0
   \<and> fromtimestamp 0 = Inr 0
   \<and> fst (verify_signature L example_verifier 1700000000000000 s
            (generate_signature L example_verifier now' s (Some 0)) (Some 0))"
proof -
  have "fromtimestamp (of_int 0) = Inr (0 * 1000000)"
    by (rule fromtimestamp_seconds) (simp_all add: datetime_min_def datetime_max_def)
  then show ?thesis
    by (simp add: verify_signature_def signature_expired_def generate_signature_def
        example_verifier_def verifier_init_def)
qed

section \<open>Properties of json.loads and of the command pattern\<close>

lemma scanstring_error_aux:
  "length s \<le> n \<Longrightarrow> scanstring s acc = Inl e \<Longrightarrow> exc_type e = JSONDecodeError"
proof (induction n arbitrary: s acc)
  case 0
  then show ?case by (auto simp: json_error_def)
next
  case (Suc n)
  note IH = Suc.IH [rotated]
  show ?case
  proof (cases s)
    case Nil
    with Suc.prems show ?thesis by (auto simp: json_error_def)
  next
    case (Cons c cs)
    with Suc.prems show ?thesis
      by (auto simp: json_error_def split: if_splits list.splits option.splits dest!: IH)
  qed
qed

lemma scanstring_error: "scanstring s acc = Inl e \<Longrightarrow> exc_type e = JSONDecodeError"
  using scanstring_error_aux [of s "length s"] by simp

lemma scan_atom_error: "scan_atom s = Inl e \<Longrightarrow> exc_type e = JSONDecodeError"
  by (auto simp: scan_atom_def json_error_def split: if_splits option.splits prod.splits)

lemma parse_errors:
  "parse_value s = Inl e \<Longrightarrow> exc_type e = JSONDecodeError"
  "array_loop s vs = Inl e \<Longrightarrow> exc_type e = JSONDecodeError"
  "object_loop s ps = Inl e \<Longrightarrow> exc_type e = JSONDecodeError"
proof (induction s and s vs and s ps rule: parse_value_array_loop_object_loop.induct)
  case (1 s)
  from "1.prems" show ?case
    apply (subst (asm) parse_value.simps)
    apply (simp split: list.splits if_splits sum.splits option.splits prod.splits
        add: json_error_def "1.IH" scanstring_error scan_atom_error)
    apply (auto simp: "1.IH" scanstring_error)
    done
next
  case (2 s "values")
  from "2.prems" show ?case
    apply (subst (asm) array_loop.simps)
    apply (simp split: list.splits if_splits sum.splits option.splits prod.splits
        add: json_error_def "2.IH")
    apply (auto simp: "2.IH")
    done
next
  case (3 s pairs)
  from "3.prems" show ?case
    apply (subst (asm) object_loop.simps)
    apply (simp split: list.splits if_splits sum.splits option.splits prod.splits
        add: json_error_def "3.IH" scanstring_error)
    apply (auto simp: "3.IH" scanstring_error)
    done
qed

lemma json_loads_error: "json_loads s = Inl e \<Longrightarrow> exc_type e = JSONDecodeError"
  by (auto simp: json_loads_def json_error_def split: sum.splits prod.splits if_splits
      dest: parse_errors(1))

lemma length_dropWhile_eq: "length (dropWhile P xs) = length xs - length (takeWhile P xs)"
  using arg_cong [OF takeWhile_dropWhile_id [of P xs], of length]
  by (simp del: takeWhile_dropWhile_id)


lemma match_integer_rest:
  "match_integer s = Some (i, r) \<Longrightarrow> consumed s r"
  by (auto simp: consumed_def match_integer_def length_dropWhile_eq split: list.splits if_splits
      dest: set_dropWhileD)

lemma match_frac_rest:
  "match_frac s = (f, r) \<Longrightarrow> length r \<le> length s \<and> set r \<subseteq> set s"
  by (auto simp: match_frac_def length_dropWhile_eq split: list.splits if_splits
      dest: set_dropWhileD)

lemma match_exp_rest:
  "match_exp s = (e, r) \<Longrightarrow> length r \<le> length s \<and> set r \<subseteq> set s"
  by (auto simp: match_exp_def length_dropWhile_eq split: list.splits if_splits
      dest: set_dropWhileD)

lemma match_number_rest:
  assumes "match_number s = Some (i, f, e, r)"
  shows "consumed s r"
proof -
  from assms obtain i' r1 r2 where
    int: "match_integer s = Some (i', r1) \<or> (\<exists>t. s = CHR ''-'' # t \<and> match_integer t = Some (i', r1))"
    and fr: "match_frac r1 = (f, r2)" and ex: "match_exp r2 = (e, r)"
    by (auto simp: match_number_def split: list.splits if_splits option.splits prod.splits)
  from int have "length r1 < length s \<and> set r1 \<subseteq> set s"
    by (auto simp: consumed_def dest!: match_integer_rest)
  with match_frac_rest [OF fr] match_exp_rest [OF ex] show ?thesis
    by (auto simp: consumed_def)
qed

lemma consumed_drop: "s \<noteq> [] \<Longrightarrow> 0 < n \<Longrightarrow> consumed s (drop n s)"
  by (auto simp: consumed_def dest: in_set_dropD)

lemma scan_atom_rest:
  assumes "scan_atom s = Inr (v, r)" and "s \<noteq> []"
  shows "consumed s r \<and> (\<forall>kvs. v \<noteq> JObj kvs)"
  using assms
  by (auto simp: scan_atom_def consumed_drop split: if_splits option.splits prod.splits
      dest: match_number_rest)

lemma scanstring_set_aux:
  "length s \<le> n \<Longrightarrow> scanstring s acc = Inr (k, r) \<Longrightarrow> set r \<subseteq> set s"
proof (induction n arbitrary: s acc)
  case 0
  then show ?case by simp
next
  case (Suc n)
  note IH = Suc.IH [rotated]
  show ?case
  proof (cases s)
    case Nil
    with Suc.prems show ?thesis by simp
  next
    case (Cons c cs)
    with Suc.prems show ?thesis
      by (auto split: if_splits list.splits option.splits dest!: IH dest: in_set_dropD)
  qed
qed

lemma scanstring_rest: "scanstring s acc = Inr (k, r) \<Longrightarrow> consumed s r"
  using scanstring_set_aux [of s "length s"] scanstring_length [of s acc k r]
  by (simp add: consumed_def)

lemma skip_ws_Cons_rest: "skip_ws s = c # r \<Longrightarrow> c \<in> set s \<and> consumed s r"
proof -
  assume a: "skip_ws s = c # r"
  have "set (skip_ws s) \<subseteq> set s"
    by (auto simp: skip_ws_def dest: set_dropWhileD)
  with a skip_ws_Cons_length [OF a] show ?thesis
    by (auto simp: consumed_def)
qed

lemma skip_ws_rest: "consumed s r \<Longrightarrow> consumed s (skip_ws r)"
  using length_skip_ws [of r]
  by (auto simp: consumed_def skip_ws_def dest: set_dropWhileD)

lemma consumed_trans: "consumed s r \<Longrightarrow> consumed r t \<Longrightarrow> consumed s t"
  by (auto simp: consumed_def)

lemma consumed_Cons: "consumed cs r \<Longrightarrow> consumed (c # cs) r"
  by (auto simp: consumed_def)

lemma consumed_Cons_self: "consumed (c # cs) cs"
  by (auto simp: consumed_def)

text \<open>Inversion of the three equations.\<close>

lemma parse_value_Inr:
  assumes "parse_value s = Inr (v, r)"
  obtains (str) cs k where "s = CHR 0x22 # cs" "scanstring cs [] = Inr (k, r)" "v = JStr k"
  | (empty_obj) cs where "s = CHR ''{'' # cs" "skip_ws cs = CHR ''}'' # r" "v = JObj []"
  | (obj) cs rest where "s = CHR ''{'' # cs" "skip_ws cs = CHR 0x22 # rest"
      "object_loop rest [] = Inr (v, r)"
  | (empty_arr) cs where "s = CHR ''['' # cs" "skip_ws cs = CHR '']'' # r" "v = JArr []"
  | (arr) cs where "s = CHR ''['' # cs" "array_loop (skip_ws cs) [] = Inr (v, r)"
  | (atom) "s \<noteq> []" "scan_atom s = Inr (v, r)"
  using assms
  apply (subst (asm) parse_value.simps)
  apply (simp split: list.splits if_splits sum.splits prod.splits)
  done

lemma array_loop_Inr:
  assumes "array_loop s vs = Inr (v, r)"
  obtains (last) v1 s1 where "parse_value s = Inr (v1, s1)" "length s1 < length s"
      "skip_ws s1 = CHR '']'' # r" "v = JArr (vs @ [v1])"
  | (more) v1 s1 s2 where "parse_value s = Inr (v1, s1)" "length s1 < length s"
      "skip_ws s1 = CHR '','' # s2" "array_loop (skip_ws s2) (vs @ [v1]) = Inr (v, r)"
  using assms
  apply (simp only: array_loop.simps [of s vs])
  apply (simp split: list.splits if_splits sum.splits prod.splits)
  done

lemma object_loop_Inr:
  assumes "object_loop s ps = Inr (v, r)"
  obtains (last) key s1 s2 v1 s4 where "scanstring s [] = Inr (key, s1)"
      "skip_ws s1 = CHR '':'' # s2" "parse_value (skip_ws s2) = Inr (v1, s4)"
      "skip_ws s4 = CHR ''}'' # r" "v = JObj (py_dict (ps @ [(key, v1)]))"
  | (more) key s1 s2 v1 s4 s5 s6 where "scanstring s [] = Inr (key, s1)"
      "skip_ws s1 = CHR '':'' # s2" "parse_value (skip_ws s2) = Inr (v1, s4)"
      "skip_ws s4 = CHR '','' # s5" "skip_ws s5 = CHR 0x22 # s6"
      "object_loop s6 (ps @ [(key, v1)]) = Inr (v, r)"
  using assms
  apply (simp only: object_loop.simps [of s ps])
  apply (simp split: list.splits if_splits sum.splits prod.splits)
  done


lemma parse_rest_aux:
  "length s \<le> n \<Longrightarrow>
     (parse_value s = Inr (v, r) \<longrightarrow> consumed s r)
     \<and> (array_loop s vs = Inr (v, r) \<longrightarrow> consumed s r)
     \<and> (object_loop s ps = Inr (v, r) \<longrightarrow> consumed s r)"
proof (induction n arbitrary: s v r vs ps)
  case 0
  then have "s = []" by simp
  then show ?case
    by (simp add: parse_value.simps array_loop.simps object_loop.simps)
next
  case (Suc n)
  have IHa: "consumed t r'" if "array_loop t vs' = Inr (v', r')" "length t \<le> n" for t vs' v' r'
    using Suc.IH [OF that(2)] that(1) by blast
  have IHo: "consumed t r'" if "object_loop t ps' = Inr (v', r')" "length t \<le> n" for t ps' v' r'
    using Suc.IH [OF that(2)] that(1) by blast
  have IHv: "consumed t r'" if "parse_value t = Inr (v', r')" "length t \<le> n" for t v' r'
    using Suc.IH [OF that(2)] that(1) by blast
  have pv: "consumed t r'" if p: "parse_value t = Inr (v', r')" and len: "length t \<le> Suc n"
    for t v' r'
    using p
  proof (cases rule: parse_value_Inr)
    case (str cs k)
    then show ?thesis using scanstring_rest consumed_Cons by blast
  next
    case (empty_obj cs)
    then show ?thesis using skip_ws_Cons_rest consumed_Cons by blast
  next
    case (obj cs rest)
    from skip_ws_Cons_rest [OF obj(2)] have c: "consumed cs rest" by simp
    then have "length rest \<le> n" using len obj(1) by (simp add: consumed_def)
    from IHo [OF obj(3) this] c show ?thesis
      using obj(1) consumed_trans consumed_Cons by blast
  next
    case (empty_arr cs)
    then show ?thesis using skip_ws_Cons_rest consumed_Cons by blast
  next
    case (arr cs)
    have "length (skip_ws cs) \<le> n" using len arr(1) length_skip_ws [of cs] by simp
    from IHa [OF arr(2) this] have "consumed (skip_ws cs) r'" .
    then have "consumed cs r'"
      using length_skip_ws [of cs] by (auto simp: consumed_def skip_ws_def dest: set_dropWhileD)
    then show ?thesis using arr(1) consumed_Cons by blast
  next
    case atom
    then show ?thesis using scan_atom_rest by blast
  qed
  have "consumed s r" if a: "array_loop s vs = Inr (v, r)"
    using a
  proof (cases rule: array_loop_Inr)
    case (last v1 s1)
    from pv [OF last(1) Suc.prems] skip_ws_Cons_rest [OF last(3)] show ?thesis
      using consumed_trans by blast
  next
    case (more v1 s1 s2)
    from pv [OF more(1) Suc.prems] have c1: "consumed s s1" .
    from skip_ws_Cons_rest [OF more(3)] have c2: "consumed s1 s2" by simp
    have c3: "consumed s (skip_ws s2)"
      using consumed_trans [OF c1 c2] skip_ws_rest by blast
    then have "length (skip_ws s2) \<le> n" using Suc.prems by (simp add: consumed_def)
    from IHa [OF more(4) this] c3 show ?thesis using consumed_trans by blast
  qed
  moreover have "consumed s r" if a: "object_loop s ps = Inr (v, r)"
    using a
  proof (cases rule: object_loop_Inr)
    case (last key s1 s2 v1 s4)
    have c1: "consumed s s1" using scanstring_rest [OF last(1)] .
    have c2: "consumed s (skip_ws s2)"
      using consumed_trans [OF c1] skip_ws_Cons_rest [OF last(2)] skip_ws_rest by blast
    then have "length (skip_ws s2) \<le> n" using Suc.prems by (simp add: consumed_def)
    from IHv [OF last(3) this] have "consumed s s4" using c2 consumed_trans by blast
    then show ?thesis using skip_ws_Cons_rest [OF last(4)] consumed_trans by blast
  next
    case (more key s1 s2 v1 s4 s5 s6)
    have c1: "consumed s s1" using scanstring_rest [OF more(1)] .
    have c2: "consumed s (skip_ws s2)"
      using consumed_trans [OF c1] skip_ws_Cons_rest [OF more(2)] skip_ws_rest by blast
    then have "length (skip_ws s2) \<le> n" using Suc.prems by (simp add: consumed_def)
    from IHv [OF more(3) this] have "consumed s s4" using c2 consumed_trans by blast
    then have "consumed s s5" using skip_ws_Cons_rest [OF more(4)] consumed_trans by blast
    then have c6: "consumed s s6" using skip_ws_Cons_rest [OF more(5)] consumed_trans by blast
    then have "length s6 \<le> n" using Suc.prems by (simp add: consumed_def)
    from IHo [OF more(6) this] c6 show ?thesis using consumed_trans by blast
  qed
  moreover have "parse_value s = Inr (v, r) \<longrightarrow> consumed s r"
    using pv [OF _ Suc.prems] by blast
  ultimately show ?case by blast
qed

lemma parse_value_rest: "parse_value s = Inr (v, r) \<Longrightarrow> consumed s r"
  using parse_rest_aux [of s "length s"] by blast

lemma parse_value_length: "parse_value s = Inr (v, r) \<Longrightarrow> length r < length s"
  using parse_value_rest [of s v r] by (simp add: consumed_def)

lemma array_loop_JArr: "array_loop s vs = Inr (v, r) \<Longrightarrow> \<exists>xs. v = JArr xs"
proof (induction "length s" arbitrary: s vs rule: less_induct)
  case less
  from less.prems show ?case
  proof (cases rule: array_loop_Inr)
    case (last v1 s1)
    then show ?thesis by blast
  next
    case (more v1 s1 s2)
    have "length (skip_ws s2) < length s"
      using more(2) skip_ws_Cons_length [OF more(3)] length_skip_ws [of s2] by simp
    from less.hyps [OF this more(4)] show ?thesis .
  qed
qed

lemma object_loop_rbrace: "object_loop s ps = Inr (v, r) \<Longrightarrow> CHR ''}'' \<in> set s"
proof (induction "length s" arbitrary: s ps rule: less_induct)
  case less
  from less.prems show ?case
  proof (cases rule: object_loop_Inr)
    case (last key s1 s2 v1 s4)
    have c1: "consumed s s1" using scanstring_rest [OF last(1)] .
    have c2: "consumed s (skip_ws s2)"
      using consumed_trans [OF c1] skip_ws_Cons_rest [OF last(2)] skip_ws_rest by blast
    have "consumed s s4" using parse_value_rest [OF last(3)] c2 consumed_trans by blast
    moreover have "CHR ''}'' \<in> set s4" using skip_ws_Cons_rest [OF last(4)] by simp
    ultimately show ?thesis by (auto simp: consumed_def)
  next
    case (more key s1 s2 v1 s4 s5 s6)
    have c1: "consumed s s1" using scanstring_rest [OF more(1)] .
    have c2: "consumed s (skip_ws s2)"
      using consumed_trans [OF c1] skip_ws_Cons_rest [OF more(2)] skip_ws_rest by blast
    have "consumed s s4" using parse_value_rest [OF more(3)] c2 consumed_trans by blast
    then have "consumed s s5" using skip_ws_Cons_rest [OF more(4)] consumed_trans by blast
    then have c6: "consumed s s6" using skip_ws_Cons_rest [OF more(5)] consumed_trans by blast
    then have "length s6 < length s" by (simp add: consumed_def)
    from less.hyps [OF this more(6)] c6 show ?thesis by (auto simp: consumed_def)
  qed
qed

lemma parse_value_JObj:
  assumes "parse_value s = Inr (JObj kvs, r)"
  shows "CHR ''}'' \<in> set s"
  using assms
proof (cases rule: parse_value_Inr)
  case (str cs k)
  then show ?thesis by simp
next
  case (empty_obj cs)
  then show ?thesis using skip_ws_Cons_rest [OF empty_obj(2)] by simp
next
  case (obj cs rest)
  from object_loop_rbrace [OF obj(3)] skip_ws_Cons_rest [OF obj(2)] obj(1) show ?thesis
    by (auto simp: consumed_def)
next
  case (empty_arr cs)
  then show ?thesis by simp
next
  case (arr cs)
  then show ?thesis using array_loop_JArr by blast
next
  case atom
  then show ?thesis using scan_atom_rest by blast
qed

lemma json_loads_JObj: "json_loads s = Inr (JObj kvs) \<Longrightarrow> CHR ''}'' \<in> set s"
proof -
  assume "json_loads s = Inr (JObj kvs)"
  then obtain r where "parse_value (skip_ws s) = Inr (JObj kvs, r)"
    by (auto simp: json_loads_def split: sum.splits prod.splits if_splits)
  from parse_value_JObj [OF this] show ?thesis
    by (auto simp: skip_ws_def dest: set_dropWhileD)
qed

text \<open>The command pattern.\<close>

lemma dropWhile_not_rbrace: "dropWhile not_rbrace x = e # r \<Longrightarrow> e = CHR ''}''"
  using hd_dropWhile [of not_rbrace x] by (simp add: not_rbrace_def)

lemma match_at_groups:
  assumes "match_at s = Some (a, b, p)"
  shows "\<exists>post. s = ''#'' @ a @ ''@'' @ b @ ''{'' @ p @ ''}'' @ post
           \<and> a \<noteq> [] \<and> (\<forall>c\<in>set a. is_word c) \<and> b \<noteq> [] \<and> (\<forall>c\<in>set b. is_word c)
           \<and> p \<noteq> [] \<and> CHR ''}'' \<notin> set p"
proof -
  from assms obtain r1 r2 r3 r4 where
    s: "s = CHR ''#'' # r1" and a: "a = takeWhile is_word r1" "a \<noteq> []"
    and d1: "dropWhile is_word r1 = CHR ''@'' # r2"
    and b: "b = takeWhile is_word r2" "b \<noteq> []"
    and d2: "dropWhile is_word r2 = CHR ''{'' # r3"
    and p: "p = takeWhile not_rbrace r3" "p \<noteq> []"
    and d3: "dropWhile not_rbrace r3 = CHR ''}'' # r4"
    by (auto simp: match_at_def split: list.splits if_splits dest: dropWhile_not_rbrace)
  have "r1 = a @ CHR ''@'' # r2"
    using takeWhile_dropWhile_id [of is_word r1] a(1) d1 by simp
  moreover have "r2 = b @ CHR ''{'' # r3"
    using takeWhile_dropWhile_id [of is_word r2] b(1) d2 by simp
  moreover have "r3 = p @ CHR ''}'' # r4"
    using takeWhile_dropWhile_id [of not_rbrace r3] p(1) d3 by simp
  moreover have "\<forall>c\<in>set a. is_word c" "\<forall>c\<in>set b. is_word c" "CHR ''}'' \<notin> set p"
    using a(1) b(1) p(1) by (auto simp: not_rbrace_def dest: set_takeWhileD)
  ultimately show ?thesis using s a(2) b(2) p(2) by auto
qed

lemma re_search_groups:
  "re_search s = Some (a, b, p) \<Longrightarrow>
     \<exists>pre post. s = pre @ ''#'' @ a @ ''@'' @ b @ ''{'' @ p @ ''}'' @ post
       \<and> a \<noteq> [] \<and> (\<forall>c\<in>set a. is_word c) \<and> b \<noteq> [] \<and> (\<forall>c\<in>set b. is_word c)
       \<and> p \<noteq> [] \<and> CHR ''}'' \<notin> set p"
proof (induction s)
  case Nil
  then show ?case by simp
next
  case (Cons c cs)
  show ?case
  proof (cases "match_at (c # cs)")
    case None
    with Cons.prems have "re_search cs = Some (a, b, p)" by simp
    from Cons.IH [OF this] obtain pre post where
      "cs = pre @ ''#'' @ a @ ''@'' @ b @ ''{'' @ p @ ''}'' @ post
         \<and> a \<noteq> [] \<and> (\<forall>c\<in>set a. is_word c) \<and> b \<noteq> [] \<and> (\<forall>c\<in>set b. is_word c)
         \<and> p \<noteq> [] \<and> CHR ''}'' \<notin> set p"
      by blast
    then have "c # cs = (c # pre) @ ''#'' @ a @ ''@'' @ b @ ''{'' @ p @ ''}'' @ post
         \<and> a \<noteq> [] \<and> (\<forall>c\<in>set a. is_word c) \<and> b \<noteq> [] \<and> (\<forall>c\<in>set b. is_word c)
         \<and> p \<noteq> [] \<and> CHR ''}'' \<notin> set p"
      by simp
    then show ?thesis by blast
  next
    case (Some g)
    with Cons.prems have "match_at (c # cs) = Some (a, b, p)" by simp
    from match_at_groups [OF this] show ?thesis
      by (metis append_Nil)
  qed
qed

section \<open>Properties of the message processor\<close>

lemma is_word_delims [simp]:
  "\<not> is_word CHR ''#''" "\<not> is_word CHR ''@''" "\<not> is_word CHR ''{''" "\<not> is_word CHR ''}''"
  by (simp_all add: is_word_def)

lemma takeWhile_run [simp]:
  "\<forall>c\<in>set a. P c \<Longrightarrow> \<not> P x \<Longrightarrow> takeWhile P (a @ x # r) = a"
  by (simp add: takeWhile_append2)

lemma dropWhile_run [simp]:
  "\<forall>c\<in>set a. P c \<Longrightarrow> \<not> P x \<Longrightarrow> dropWhile P (a @ x # r) = x # r"
  by (simp add: dropWhile_append2)

lemma match_at_None_no_hash: "s = [] \<or> hd s \<noteq> CHR ''#'' \<Longrightarrow> match_at s = None"
  by (cases s) (auto simp: match_at_def)

lemma re_search_no_hash: "CHR ''#'' \<notin> set s \<Longrightarrow> re_search s = None"
  by (induction s) (auto simp: match_at_None_no_hash)

lemma match_at_empty_payload:
  assumes "\<forall>c\<in>set ty. is_word c" "\<forall>c\<in>set sys. is_word c"
  shows "match_at (''#'' @ ty @ ''@'' @ sys @ ''{}'' @ post) = None"
  using assms by (simp add: match_at_def not_rbrace_def)

lemma re_search_empty_payload:
  assumes "\<forall>c\<in>set ty. is_word c" "\<forall>c\<in>set sys. is_word c"
  shows "re_search (''#'' @ ty @ ''@'' @ sys @ ''{}'') = None"
proof -
  have "CHR ''#'' \<notin> set (ty @ ''@'' @ sys @ ''{}'')"
    using assms by auto
  from re_search_no_hash [OF this] match_at_empty_payload [OF assms, of "[]"] show ?thesis
    by simp
qed

text \<open>
  With \<open>match_at_groups\<close> and \<open>re_search_groups\<close>: the matcher finds exactly the texts
  of the form the pattern describes.
\<close>

lemma match_at_complete:
  assumes "a \<noteq> []" "\<forall>c\<in>set a. is_word c" "b \<noteq> []" "\<forall>c\<in>set b. is_word c"
    and "p \<noteq> []" "CHR ''}'' \<notin> set p"
  shows "match_at (''#'' @ a @ ''@'' @ b @ ''{'' @ p @ ''}'' @ post) = Some (a, b, p)"
proof -
  have "\<forall>c\<in>set p. not_rbrace c" "\<not> not_rbrace CHR ''}''"
    using assms(6) by (auto simp: not_rbrace_def)
  then show ?thesis
    using assms(1-5) by (simp add: match_at_def)
qed

lemma re_search_complete:
  assumes "a \<noteq> []" "\<forall>c\<in>set a. is_word c" "b \<noteq> []" "\<forall>c\<in>set b. is_word c"
    and "p \<noteq> []" "CHR ''}'' \<notin> set p"
  shows "re_search (pre @ ''#'' @ a @ ''@'' @ b @ ''{'' @ p @ ''}'' @ post) \<noteq> None"
proof (induction pre)
  case Nil
  from match_at_complete [OF assms, of post] show ?case by simp
next
  case (Cons c pre)
  then show ?case by (simp split: option.splits)
qed

lemma validate_payload_refused:
  "validate_payload L JNull = None" "validate_payload L (JBool b) = None"
  "validate_payload L (JInt n) = None" "validate_payload L (JFloat f) = None"
  by (simp_all add: validate_payload_def)

lemma validate_payload_not_list_or_str:
  "\<forall>kvs. pl \<noteq> JObj kvs \<Longrightarrow> \<forall>xs. pl \<noteq> JArr xs \<Longrightarrow> \<forall>x. pl \<noteq> JStr x
     \<Longrightarrow> validate_payload L pl = None"
  by (cases pl) (simp_all add: validate_payload_def)

lemma validate_payload_no_coercion:
  "\<forall>kvs. pl \<noteq> JObj kvs \<Longrightarrow> \<forall>v. dict_coercion L v = None \<Longrightarrow> validate_payload L pl = None"
  by (cases pl) (simp_all add: validate_payload_def)

lemma payload_never_dict:
  assumes "re_search msg = Some (ct, ts, ps)" "json_loads ps = Inr pl"
  shows "\<forall>kvs. pl \<noteq> JObj kvs"
proof -
  from re_search_groups [OF assms(1)] have "CHR ''}'' \<notin> set ps" by blast
  with json_loads_JObj [of ps] assms(2) show ?thesis by blast
qed

lemma extract_command_no_match:
  "re_search msg = None \<Longrightarrow>
     extract_command L now msg st = (Inr None, logP DEBUG ''No command found in message'' st)"
  by (simp add: extract_command_def extract_command_body_def)

lemma extract_command_bad_json:
  assumes "re_search msg = Some (ct, ts, ps)" "json_loads ps = Inl e"
  shows "extract_command L now msg st
           = (Inr None, logP ERROR ''Invalid JSON payload in command'' st)"
  using assms json_loads_error [OF assms(2)]
  by (simp add: extract_command_def extract_command_body_def)

lemma extract_command_refused:
  assumes "re_search msg = Some (ct, ts, ps)" "json_loads ps = Inr pl"
    and "validate_payload L pl = None"
  shows "extract_command L now msg st
           = (Inr None,
              logP ERROR ''Error extracting command: payload: value is not a valid dict'' st)"
  using assms by (simp add: extract_command_def extract_command_body_def Command_init_def)

lemma extract_command_accepted:
  assumes "re_search msg = Some (ct, ts, ps)" "json_loads ps = Inr pl"
    and "validate_payload L pl = Some kvs"
  shows "fst (extract_command L now msg st)
           = Inr (Some \<lparr>command_type = ct, target_system = ts, payload = kvs,
                         signature = None, timestamp = Some (datetime_timestamp now)\<rparr>)"
  using assms by (simp add: extract_command_def extract_command_body_def Command_init_def)

text \<open>
  No text the pattern captures decodes to a dictionary. Where pydantic coerces nothing
  to a dictionary, \<^verbatim>\<open>extract_command\<close> therefore returns \<^verbatim>\<open>None\<close> for every message;
  where it coerces the empty list, a Command is returned for a payload \<^verbatim>\<open>[]\<close>.
\<close>

lemma extract_command_never_a_command:
  assumes "\<forall>v. dict_coercion L v = None"
  shows "fst (extract_command L now msg st) = Inr None"
proof (cases "re_search msg")
  case None
  then show ?thesis by (simp add: extract_command_no_match)
next
  case (Some g)
  then obtain ct ts ps where g: "re_search msg = Some (ct, ts, ps)"
    by (cases g) auto
  show ?thesis
  proof (cases "json_loads ps")
    case (Inl e)
    from extract_command_bad_json [OF g Inl] show ?thesis by simp
  next
    case (Inr pl)
    from validate_payload_no_coercion [OF payload_never_dict [OF g Inr] assms]
    have "validate_payload L pl = None" .
    from extract_command_refused [OF g Inr this] show ?thesis by simp
  qed
qed

lemma extract_command_coerced_list:
  "fst (extract_command coercing_lib 0 ''#a@b{[]} #x@y{}'' processor_init)
     = Inr (Some \<lparr>command_type = ''a'', target_system = ''b'', payload = [],
                   signature = None, timestamp = Some 0\<rparr>)"
proof -
  have m: "re_search ''#a@b{[]} #x@y{}'' = Some (''a'', ''b'', ''[]'')"
    by (simp add: match_at_def is_word_def not_rbrace_def)
  have j: "json_loads ''[]'' = Inr (JArr [])"
    by (simp add: json_loads_def skip_ws_def is_ws_def parse_value.simps)
  have v: "validate_payload coercing_lib (JArr []) = Some []"
    by (simp add: validate_payload_def coercing_lib_def)
  from extract_command_accepted [OF m j v, of 0 processor_init] show ?thesis
    by (simp add: datetime_timestamp_def)
qed

lemma re_search_skip_prefix: "CHR ''#'' \<notin> set pre \<Longrightarrow> re_search (pre @ s) = re_search s"
  by (induction pre) (auto simp: match_at_None_no_hash)

lemma re_search_empty_payload_in_text:
  assumes "\<forall>c\<in>set ty. is_word c" "\<forall>c\<in>set sys. is_word c"
    and "CHR ''#'' \<notin> set pre" "CHR ''#'' \<notin> set post"
  shows "re_search (pre @ ''#'' @ ty @ ''@'' @ sys @ ''{}'' @ post) = None"
proof -
  have "CHR ''#'' \<notin> set (ty @ ''@'' @ sys @ ''{}'' @ post)"
    using assms(1,2,4) by auto
  from re_search_no_hash [OF this] match_at_empty_payload [OF assms(1,2), of post]
  have "re_search (''#'' @ ty @ ''@'' @ sys @ ''{}'' @ post) = None"
    by simp
  with re_search_skip_prefix [OF assms(3)] show ?thesis
    by simp
qed

lemma json_loads_number: "json_loads ''1'' = Inr (JInt 1)"
  by (simp add: json_loads_def skip_ws_def is_ws_def parse_value.simps scan_atom_def
      match_number_def match_integer_def is_digit_def match_frac_def match_exp_def
      parse_int_def digits_value_def)

text \<open>
  C6 on the code. The third group of the command pattern is the text strictly between
  the braces, so for the message \<^verbatim>\<open>#ping@system{"a":1}\<close> the text handed to
  \<^verbatim>\<open>json.loads\<close> is \<^verbatim>\<open>"a":1\<close>: a string followed by extra data. The decoder raises
  \<^verbatim>\<open>JSONDecodeError\<close>, and \<^verbatim>\<open>extract_command\<close> logs the invalid payload and returns
  \<^verbatim>\<open>None\<close>, where the claim requires a Command of type \<^verbatim>\<open>ping\<close> for \<^verbatim>\<open>system\<close>
  with the payload \<^verbatim>\<open>{"a": 1}\<close>.
\<close>

theorem extract_ping_returns_nothing:
  \<open>re_search ''#ping@system{"a":1}'' = Some (''ping'', ''system'', ''"a":1'')
   \<and> json_loads ''"a":1'' = Inl (json_error ''Extra data'')
   \<and> extract_command L now ''#ping@system{"a":1}'' st
       = (Inr None, logP ERROR ''Invalid JSON payload in command'' st)\<close>
proof -
  have m: \<open>re_search ''#ping@system{"a":1}'' = Some (''ping'', ''system'', ''"a":1'')\<close>
    by (simp add: match_at_def is_word_def not_rbrace_def)
  have j: \<open>json_loads ''"a":1'' = Inl (json_error ''Extra data'')\<close>
    by (simp add: json_loads_def skip_ws_def is_ws_def parse_value.simps)
  from m j extract_command_bad_json [OF m j] show ?thesis by simp
qed

text \<open>
  C7. When the payload text matched in a message is not valid JSON, that is when
  \<^verbatim>\<open>json.loads\<close> raises on it, \<^verbatim>\<open>extract_command\<close> logs the invalid payload and
  returns \<^verbatim>\<open>None\<close>: no exception leaves it, no Command is built and the cache is as it
  was.
\<close>

theorem invalid_json_payload_skipped:
  assumes "re_search msg = Some (ct, ts, ps)" and "json_loads ps = Inl e"
  shows "extract_command L now msg st
           = (Inr None, logP ERROR ''Invalid JSON payload in command'' st)
         \<and> command_cache (snd (extract_command L now msg st)) = command_cache st"
  using extract_command_bad_json [OF assms] by (simp add: logP_def)

theorem invalid_json_payload_skipped_witness:
  "re_search ''#bad@system{not-json}'' = Some (''bad'', ''system'', ''not-json'')
   \<and> json_loads ''not-json'' = Inl (json_error ''Expecting value'')
   \<and> extract_command example_lib 0 ''#bad@system{not-json}'' processor_init
       = (Inr None, logP ERROR ''Invalid JSON payload in command'' processor_init)"
proof -
  have m: "re_search ''#bad@system{not-json}'' = Some (''bad'', ''system'', ''not-json'')"
    by (simp add: match_at_def is_word_def not_rbrace_def)
  have j: "json_loads ''not-json'' = Inl (json_error ''Expecting value'')"
    by (simp add: json_loads_def skip_ws_def is_ws_def parse_value.simps scan_atom_def
        match_number_def match_integer_def is_digit_def)
  from m j invalid_json_payload_skipped [OF m j, of example_lib 0 processor_init]
  show ?thesis by simp
qed

text \<open>
  C9. A command written with an empty pair of braces is not recognised: for tokens
  \<open>ty\<close> and \<open>sys\<close> of word characters, the pattern does not match where
  \<^verbatim>\<open>#ty@sys{}\<close> stands, whatever follows, because it requires a character other than
  the closing brace between the braces; the message \<^verbatim>\<open>#ty@sys{}\<close> has no match at all
  and \<^verbatim>\<open>extract_command\<close> returns \<^verbatim>\<open>None\<close> for it; and so it does for every message
  that contains \<^verbatim>\<open>#ty@sys{}\<close> between texts that hold no \<^verbatim>\<open>#\<close>, where no other
  command can start.
\<close>

theorem empty_payload_not_recognized:
  assumes "\<forall>c\<in>set ty. is_word c" and "\<forall>c\<in>set sys. is_word c"
  shows "match_at (''#'' @ ty @ ''@'' @ sys @ ''{}'' @ post) = None
         \<and> re_search (''#'' @ ty @ ''@'' @ sys @ ''{}'') = None
         \<and> extract_command L now (''#'' @ ty @ ''@'' @ sys @ ''{}'') st
             = (Inr None, logP DEBUG ''No command found in message'' st)
         \<and> (CHR ''#'' \<notin> set pre \<longrightarrow> CHR ''#'' \<notin> set post' \<longrightarrow>
              re_search (pre @ ''#'' @ ty @ ''@'' @ sys @ ''{}'' @ post') = None
              \<and> extract_command L now (pre @ ''#'' @ ty @ ''@'' @ sys @ ''{}'' @ post') st
                  = (Inr None, logP DEBUG ''No command found in message'' st))"
proof -
  have "re_search (pre @ ''#'' @ ty @ ''@'' @ sys @ ''{}'' @ post') = None
        \<and> extract_command L now (pre @ ''#'' @ ty @ ''@'' @ sys @ ''{}'' @ post') st
            = (Inr None, logP DEBUG ''No command found in message'' st)"
    if "CHR ''#'' \<notin> set pre" "CHR ''#'' \<notin> set post'"
    using re_search_empty_payload_in_text [OF assms that]
      extract_command_no_match [OF re_search_empty_payload_in_text [OF assms that]]
    by simp
  then show ?thesis
    using match_at_empty_payload [OF assms] re_search_empty_payload [OF assms]
      extract_command_no_match [OF re_search_empty_payload [OF assms]]
    by simp
qed

theorem empty_payload_not_recognized_witness:
  "list_all is_word ''status'' \<and> list_all is_word ''system''
   \<and> re_search ''#status@system{}'' = None
   \<and> extract_command example_lib 0 ''#status@system{}'' processor_init
       = (Inr None, logP DEBUG ''No command found in message'' processor_init)
   \<and> re_search ''run #status@system{} now'' = None
   \<and> extract_command coercing_lib 0 ''run #status@system{} now'' processor_init
       = (Inr None, logP DEBUG ''No command found in message'' processor_init)"
proof -
  have a: "\<forall>c\<in>set ''status''. is_word c" and b: "\<forall>c\<in>set ''system''. is_word c"
    by (simp_all add: is_word_def)
  have l: "list_all is_word ''status''" "list_all is_word ''system''"
    by (simp_all add: is_word_def)
  from empty_payload_not_recognized [OF a b, of "[]" example_lib 0 processor_init "[]" "[]"]
  have 1: "re_search ''#status@system{}'' = None
           \<and> extract_command example_lib 0 ''#status@system{}'' processor_init
               = (Inr None, logP DEBUG ''No command found in message'' processor_init)"
    by (simp del: re_search.simps)
  from empty_payload_not_recognized [OF a b, of "[]" coercing_lib 0 processor_init
      "''run ''" "'' now''"]
  have 2: "re_search ''run #status@system{} now'' = None
           \<and> extract_command coercing_lib 0 ''run #status@system{} now'' processor_init
               = (Inr None, logP DEBUG ''No command found in message'' processor_init)"
    by (simp del: re_search.simps)
  from l 1 2 show ?thesis by (simp del: re_search.simps)
qed

text \<open>
  C10. \<^verbatim>\<open>extract_command\<close> returns for every message, with a Command or \<^verbatim>\<open>None\<close>, and
  no exception leaves it. A payload that is valid JSON and that the Command model
  refuses makes it return \<^verbatim>\<open>None\<close>; so does every payload that is valid JSON and
  neither a list nor a string, such as a bare number (what the pattern captures never
  decodes to an object, and a number, a boolean and \<^verbatim>\<open>null\<close> are refused).
  \<^verbatim>\<open>process_message\<close> returns for every message too, and its metadata hold the length of
  the message under \<^verbatim>\<open>length\<close> and, under \<^verbatim>\<open>has_command\<close>, whether a Command was
  returned.
\<close>

theorem extraction_total:
  "(\<exists>res st'. extract_command L now msg st = (Inr res, st'))
   \<and> (re_search msg = Some (ct, ts, ps) \<longrightarrow> json_loads ps = Inr pl \<longrightarrow> validate_payload L pl = None
        \<longrightarrow> fst (extract_command L now msg st) = Inr None)
   \<and> (re_search msg = Some (ct, ts, ps) \<longrightarrow> json_loads ps = Inr pl
        \<longrightarrow> (\<forall>xs. pl \<noteq> JArr xs) \<longrightarrow> (\<forall>x. pl \<noteq> JStr x)
        \<longrightarrow> fst (extract_command L now msg st) = Inr None)
   \<and> (\<exists>cmd md st'. process_message L now0 now msg st = (Inr (cmd, md), st')
         \<and> fst (extract_command L now msg st) = Inr cmd
         \<and> md ''length'' = Some (PyInt (int (length msg)))
         \<and> md ''has_command'' = Some (PyBool (cmd \<noteq> None)))"
proof -
  obtain out st' where e: "extract_command L now msg st = (out, st')"
    by (cases "extract_command L now msg st") auto
  have raise: "out \<noteq> Inl x" for x
  proof
    assume x: "out = Inl x"
    obtain o1 s1 where b: "extract_command_body L now msg st = (o1, s1)"
      by (cases "extract_command_body L now msg st") auto
    from e x b have o1: "o1 = Inl x" and nx: "\<not> is_Exception (exc_type x)"
      by (auto simp: extract_command_def split: sum.splits if_splits)
    from b o1 have "exc_type x = ValidationError \<or> exc_type x = JSONDecodeError"
      by (auto simp: extract_command_body_def Command_init_def
          split: option.splits sum.splits if_splits prod.splits
          dest: json_loads_error)
    with nx show False by auto
  qed
  then obtain res where res: "out = Inr res"
    by (cases out) auto
  have 1: "\<exists>res st'. extract_command L now msg st = (Inr res, st')"
    using e res by blast
  have 2: "re_search msg = Some (ct, ts, ps) \<longrightarrow> json_loads ps = Inr pl
        \<longrightarrow> validate_payload L pl = None \<longrightarrow> fst (extract_command L now msg st) = Inr None"
    using extract_command_refused [of msg ct ts ps pl L now st] by simp
  have 3: "re_search msg = Some (ct, ts, ps) \<longrightarrow> json_loads ps = Inr pl
        \<longrightarrow> (\<forall>xs. pl \<noteq> JArr xs) \<longrightarrow> (\<forall>x. pl \<noteq> JStr x)
        \<longrightarrow> fst (extract_command L now msg st) = Inr None"
  proof (intro impI)
    assume g: "re_search msg = Some (ct, ts, ps)" and j: "json_loads ps = Inr pl"
      and na: "\<forall>xs. pl \<noteq> JArr xs" and ns: "\<forall>x. pl \<noteq> JStr x"
    from validate_payload_not_list_or_str [OF payload_never_dict [OF g j] na ns]
    have "validate_payload L pl = None" .
    from extract_command_refused [OF g j this] show "fst (extract_command L now msg st) = Inr None"
      by simp
  qed
  have 4: "\<exists>cmd md st'. process_message L now0 now msg st = (Inr (cmd, md), st')
         \<and> fst (extract_command L now msg st) = Inr cmd
         \<and> md ''length'' = Some (PyInt (int (length msg)))
         \<and> md ''has_command'' = Some (PyBool (cmd \<noteq> None))"
    using e res by (cases res) (simp_all add: process_message_def)
  from 1 2 3 4 show ?thesis by blast
qed

theorem extraction_total_witness:
  "re_search ''#ping@system{1}'' = Some (''ping'', ''system'', ''1'')
   \<and> json_loads ''1'' = Inr (JInt 1)
   \<and> validate_payload coercing_lib (JInt 1) = None
   \<and> fst (extract_command coercing_lib 0 ''#ping@system{1}'' processor_init) = Inr None"
proof -
  have m: "re_search ''#ping@system{1}'' = Some (''ping'', ''system'', ''1'')"
    by (simp add: match_at_def is_word_def not_rbrace_def)
  have v: "validate_payload coercing_lib (JInt 1) = None"
    by (simp add: validate_payload_def)
  from m json_loads_number v
    extraction_total [of coercing_lib 0 "''#ping@system{1}''" processor_init
      "''ping''" "''system''" "''1''" "JInt 1" 0]
  show ?thesis by blast
qed

end
